theory Spec2Isabelle
  imports Complex_Main "HOL-Library.Multiset" "HOL-Library.Sublist"
begin

section \<open>Goszakup tender parser: model of the source\<close>

subsection \<open>Python values\<close>

text \<open>
  A Python \<open>dict\<close> with string keys is an association list whose keys are distinct, in
  insertion order. \<open>d.get(k)\<close> is \<open>None\<close> for a missing key; where the stored values are
  themselves optional, a missing key and a stored \<open>None\<close> read the same.
\<close>

type_synonym 'v pydict = "(string \<times> 'v) list"

definition dict_values :: "'v pydict \<Rightarrow> 'v list" where
  "dict_values d = map snd d"

definition dict_get :: "'v option pydict \<Rightarrow> string \<Rightarrow> 'v option" where
  "dict_get d k = (case map_of d k of None \<Rightarrow> None | Some v \<Rightarrow> v)"

text \<open>\<open>str(n)\<close> of a non-negative integer, as an f-string prints it.\<close>

fun str_nat :: "nat \<Rightarrow> string" where
  "str_nat n =
     (if n < 10 then [char_of (48 + n)]
      else str_nat (n div 10) @ [char_of (48 + n mod 10)])"

declare str_nat.simps [simp del]

subsection \<open>config.py\<close>

text \<open>
  \<open>FIELD_MAPPING\<close>: the Russian table headers and the database column of each. A header is
  kept as the list of its Unicode code points, which is what a Python \<open>str\<close> is.
\<close>

definition FIELD_MAPPING :: "(nat list \<times> string) list" where
  "FIELD_MAPPING =
    [([1051, 1086, 1090, 32, 8470], ''lot_number''),
     ([1057, 1090, 1072, 1090, 1091, 1089, 32, 1083, 1086, 1090, 1072], ''lot_status''),
     ([1041, 1048, 1053, 32, 1079, 1072, 1082, 1072, 1079, 1095, 1080, 1082, 1072],
        ''customer_bin''),
     ([1053, 1072, 1080, 1084, 1077, 1085, 1086, 1074, 1072, 1085, 1080, 1077, 32, 1079, 1072,
       1082, 1072, 1079, 1095, 1080, 1082, 1072], ''customer_name''),
     ([1050, 1086, 1076, 32, 1058, 1056, 1059], ''tru_code''),
     ([1053, 1072, 1080, 1084, 1077, 1085, 1086, 1074, 1072, 1085, 1080, 1077, 32, 1058, 1056,
       1059], ''tru_name''),
     ([1050, 1088, 1072, 1090, 1082, 1072, 1103, 32, 1093, 1072, 1088, 1072, 1082, 1090, 1077,
       1088, 1080, 1089, 1090, 1080, 1082, 1072], ''brief_description''),
     ([1044, 1086, 1087, 1086, 1083, 1085, 1080, 1090, 1077, 1083, 1100, 1085, 1072, 1103, 32,
       1093, 1072, 1088, 1072, 1082, 1090, 1077, 1088, 1080, 1089, 1090, 1080, 1082, 1072],
        ''additional_description''),
     ([1062, 1077, 1085, 1072, 32, 1079, 1072, 32, 1077, 1076, 1080, 1085, 1080, 1094, 1091],
        ''price_per_unit''),
     ([1045, 1076, 1080, 1085, 1080, 1094, 1072, 32, 1080, 1079, 1084, 1077, 1088, 1077, 1085,
       1080, 1103], ''unit_of_measurement''),
     ([1050, 1086, 1083, 1080, 1095, 1077, 1089, 1090, 1074, 1086], ''quantity''),
     ([1052, 1077, 1089, 1090, 1086, 32, 1087, 1086, 1089, 1090, 1072, 1074, 1082, 1080, 32,
       1090, 1086, 1074, 1072, 1088, 1072, 44, 32, 1050, 1040, 1058, 1054],
        ''delivery_location_kato'')]"

text \<open>\<open>FIELD_MAPPING.values()\<close>: the twelve column names.\<close>

definition FIELD_MAPPING_values :: "string list" where
  "FIELD_MAPPING_values = map snd FIELD_MAPPING"

subsection \<open>parsers.py\<close>

text \<open>
  \<open>html.fromstring\<close> and \<open>tree.xpath\<close> belong to lxml. What they do to a markup string is
  a parameter: either an exception, or the list of \<open>data-lot-id\<close> attribute values of the
  anchors, in document order.
\<close>

datatype lxml_error = LxmlError string

text \<open>The loop of \<open>extract_lot_ids\<close> over the attribute values, with \<open>seen\<close> and
  \<open>unique_lot_ids\<close> as it updates them. An empty string is falsy and is dropped.\<close>

fun unique_loop :: "string list \<Rightarrow> string set \<Rightarrow> string list \<Rightarrow> string list" where
  "unique_loop [] seen unique_lot_ids = unique_lot_ids"
| "unique_loop (lot_id # lot_ids) seen unique_lot_ids =
     (if lot_id \<noteq> [] \<and> lot_id \<notin> seen
      then unique_loop lot_ids (insert lot_id seen) (unique_lot_ids @ [lot_id])
      else unique_loop lot_ids seen unique_lot_ids)"

definition extract_lot_ids ::
  "(string \<Rightarrow> lxml_error + string list) \<Rightarrow> string \<Rightarrow> string \<Rightarrow> string list" where
  "extract_lot_ids xpath_lot_ids html_content announce_url =
     (case xpath_lot_ids html_content of
        Inl e \<Rightarrow> []
      | Inr lot_ids \<Rightarrow> unique_loop lot_ids {} [])"

text \<open>\<open>sum(1 for v in parsed_data.values() if v is not None)\<close>.\<close>

definition filled_fields :: "string option pydict \<Rightarrow> nat" where
  "filled_fields parsed_data = length (filter (\<lambda>v. v \<noteq> None) (dict_values parsed_data))"

definition determine_parse_status :: "string option pydict \<Rightarrow> string \<times> string option" where
  "determine_parse_status parsed_data =
     (let filled = filled_fields parsed_data;
          total_fields = length FIELD_MAPPING
      in if filled = 0 then (''failed'', Some ''No fields could be parsed'')
         else if filled < total_fields then
           (let missing = total_fields - filled
            in (''partial'',
                Some (''Only '' @ str_nat filled @ ''/'' @ str_nat total_fields
                      @ '' fields parsed ('' @ str_nat missing @ '' missing)'')))
         else (''success'', None))"

subsection \<open>database.py\<close>

text \<open>
  The two tables. A table is the list of its rows in the order of their \<open>id\<close>, the
  autoincremented primary key, so \<open>ORDER BY id\<close> is the order of the list and the key is
  left out of the rows. A timestamp is a reading of a clock that the caller supplies.
\<close>

type_synonym timestamp = nat

record lot_detail =
  lot_url :: string
  data_lot_id :: string
  announce_id :: string
  lot_number :: "string option"
  lot_status :: "string option"
  customer_bin :: "string option"
  customer_name :: "string option"
  tru_code :: "string option"
  tru_name :: "string option"
  brief_description :: "string option"
  additional_description :: "string option"
  price_per_unit :: "string option"
  unit_of_measurement :: "string option"
  quantity :: "string option"
  delivery_location_kato :: "string option"
  scraped_at :: timestamp
  parse_status :: string
  error_message :: "string option"

text \<open>A row of \<open>scraping_progress\<close>; its columns \<open>lot_url\<close> and \<open>announce_id\<close> are
  \<open>p_lot_url\<close> and \<open>p_announce_id\<close> here, apart from those of \<open>lot_details\<close>.\<close>

record progress =
  p_lot_url :: string
  p_announce_id :: string
  status :: string
  lot_ids_found :: int
  lot_ids_processed :: int
  started_at :: "timestamp option"
  completed_at :: "timestamp option"
  error_count :: int
  last_error :: "string option"

record database =
  lot_details :: "lot_detail list"
  scraping_progress :: "progress list"

datatype sqlite_error = IntegrityError string | OtherError string

text \<open>The columns of \<open>UNIQUE(lot_url, data_lot_id)\<close>.\<close>

definition lot_key :: "lot_detail \<Rightarrow> string \<times> string" where
  "lot_key r = (lot_url r, data_lot_id r)"

text \<open>The \<open>VALUES\<close> tuple of the \<open>INSERT\<close> in \<open>insert_lot_detail\<close>; \<open>scraped_at\<close> takes its
  default, the current time.\<close>

definition lot_row ::
  "timestamp \<Rightarrow> string \<Rightarrow> string \<Rightarrow> string \<Rightarrow> string option pydict \<Rightarrow> string
     \<Rightarrow> string option \<Rightarrow> lot_detail" where
  "lot_row now url lot_id ann parsed_data pstatus msg =
     \<lparr>lot_url = url, data_lot_id = lot_id, announce_id = ann,
      lot_number = dict_get parsed_data ''lot_number'',
      lot_status = dict_get parsed_data ''lot_status'',
      customer_bin = dict_get parsed_data ''customer_bin'',
      customer_name = dict_get parsed_data ''customer_name'',
      tru_code = dict_get parsed_data ''tru_code'',
      tru_name = dict_get parsed_data ''tru_name'',
      brief_description = dict_get parsed_data ''brief_description'',
      additional_description = dict_get parsed_data ''additional_description'',
      price_per_unit = dict_get parsed_data ''price_per_unit'',
      unit_of_measurement = dict_get parsed_data ''unit_of_measurement'',
      quantity = dict_get parsed_data ''quantity'',
      delivery_location_kato = dict_get parsed_data ''delivery_location_kato'',
      scraped_at = now, parse_status = pstatus, error_message = msg\<rparr>"

text \<open>\<open>cursor.execute("INSERT INTO lot_details ...")\<close>: the engine refuses a row whose
  \<open>(lot_url, data_lot_id)\<close> is already in the table.\<close>

definition execute_insert_lot :: "lot_detail \<Rightarrow> database \<Rightarrow> sqlite_error + database" where
  "execute_insert_lot row db =
     (if lot_key row \<in> set (map lot_key (lot_details db))
      then Inl (IntegrityError
                  ''UNIQUE constraint failed: lot_details.lot_url, lot_details.data_lot_id'')
      else Inr (db\<lparr>lot_details := lot_details db @ [row]\<rparr>))"

text \<open>\<open>insert_lot_detail\<close>: the connection commits when the insert went through and rolls
  back when it raised; \<open>IntegrityError\<close> is caught and gives \<open>False\<close>, any other exception
  is raised again.\<close>

definition insert_lot_detail ::
  "timestamp \<Rightarrow> string \<Rightarrow> string \<Rightarrow> string \<Rightarrow> string option pydict \<Rightarrow> string
     \<Rightarrow> string option \<Rightarrow> database \<Rightarrow> sqlite_error + bool \<times> database" where
  "insert_lot_detail now url lot_id ann parsed_data pstatus msg db =
     (case execute_insert_lot (lot_row now url lot_id ann parsed_data pstatus msg) db of
        Inr db' \<Rightarrow> Inr (True, db')
      | Inl (IntegrityError m) \<Rightarrow> Inr (False, db)
      | Inl e \<Rightarrow> Inl e)"

definition find_progress :: "string \<Rightarrow> database \<Rightarrow> progress option" where
  "find_progress url db = find (\<lambda>r. p_lot_url r = url) (scraping_progress db)"

definition get_or_create_progress ::
  "timestamp \<Rightarrow> string \<Rightarrow> string \<Rightarrow> database \<Rightarrow> progress \<times> database" where
  "get_or_create_progress now url ann db =
     (case find_progress url db of
        Some row \<Rightarrow> (row, db)
      | None \<Rightarrow>
          (let new = \<lparr>p_lot_url = url, p_announce_id = ann, status = ''pending'',
                      lot_ids_found = 0, lot_ids_processed = 0, started_at = Some now,
                      completed_at = None, error_count = 0, last_error = None\<rparr>
           in (new, db\<lparr>scraping_progress := scraping_progress db @ [new]\<rparr>)))"

text \<open>The entries of \<open>updates\<close> with their parameters, in the order \<open>update_progress\<close>
  appends them.\<close>

datatype assignment =
    Set_status string
  | Set_started_at timestamp
  | Set_completed_at timestamp
  | Set_lot_ids_found int
  | Set_lot_ids_processed int
  | Set_error_count int
  | Set_last_error string

fun assign :: "assignment \<Rightarrow> progress \<Rightarrow> progress" where
  "assign (Set_status v) r = r\<lparr>status := v\<rparr>"
| "assign (Set_started_at t) r = r\<lparr>started_at := Some t\<rparr>"
| "assign (Set_completed_at t) r = r\<lparr>completed_at := Some t\<rparr>"
| "assign (Set_lot_ids_found n) r = r\<lparr>lot_ids_found := n\<rparr>"
| "assign (Set_lot_ids_processed n) r = r\<lparr>lot_ids_processed := n\<rparr>"
| "assign (Set_error_count n) r = r\<lparr>error_count := n\<rparr>"
| "assign (Set_last_error e) r = r\<lparr>last_error := Some e\<rparr>"

text \<open>\<open>if status:\<close> holds for a string that is neither \<open>None\<close> nor empty.\<close>

definition progress_updates ::
  "timestamp \<Rightarrow> string option \<Rightarrow> int option \<Rightarrow> int option \<Rightarrow> int option \<Rightarrow> string option
     \<Rightarrow> assignment list" where
  "progress_updates now st found processed errors err =
     (case st of
        None \<Rightarrow> []
      | Some v \<Rightarrow>
          if v = [] then []
          else Set_status v #
               (if v = ''processing'' \<and> found = None then [Set_started_at now]
                else if v = ''completed'' then [Set_completed_at now]
                else []))
     @ (case found of None \<Rightarrow> [] | Some n \<Rightarrow> [Set_lot_ids_found n])
     @ (case processed of None \<Rightarrow> [] | Some n \<Rightarrow> [Set_lot_ids_processed n])
     @ (case errors of None \<Rightarrow> [] | Some n \<Rightarrow> [Set_error_count n])
     @ (case err of None \<Rightarrow> [] | Some e \<Rightarrow> [Set_last_error e])"

definition update_progress ::
  "timestamp \<Rightarrow> string \<Rightarrow> string option \<Rightarrow> int option \<Rightarrow> int option \<Rightarrow> int option
     \<Rightarrow> string option \<Rightarrow> database \<Rightarrow> database" where
  "update_progress now url st found processed errors err db =
     (let updates = progress_updates now st found processed errors err
      in if updates = [] then db
         else db\<lparr>scraping_progress :=
                   map (\<lambda>r. if p_lot_url r = url then fold assign updates r else r)
                       (scraping_progress db)\<rparr>)"

definition get_pending_urls :: "database \<Rightarrow> string list" where
  "get_pending_urls db =
     map p_lot_url
       (filter (\<lambda>r. status r = ''pending'' \<or> status r = ''failed'') (scraping_progress db))"

definition increment_processed :: "string \<Rightarrow> database \<Rightarrow> database" where
  "increment_processed url db =
     db\<lparr>scraping_progress :=
          map (\<lambda>r. if p_lot_url r = url then r\<lparr>lot_ids_processed := lot_ids_processed r + 1\<rparr>
                    else r)
              (scraping_progress db)\<rparr>"

subsection \<open>http_client.py\<close>

text \<open>
  What \<open>session.post\<close> can do: return a response (status code and text), or raise. The
  constructors of \<open>outcome\<close> are the classes that \<open>post_with_retry\<close> tells apart by its
  \<open>except\<close> clauses; \<open>Raised\<close> is an exception outside the hierarchy of
  \<open>requests.exceptions.RequestException\<close>, which no clause catches.
\<close>

datatype outcome =
    Response nat string
  | Timeout
  | ConnectionError string
  | RequestException string
  | Raised string

type_synonym response = "nat \<times> string"

text \<open>The form body of a request: \<open>None\<close>, or the dict that is posted.\<close>

type_synonym form_data = "string pydict option"

text \<open>
  The outside world, fixed for a run. The transport answers the \<open>n\<close>-th request of the
  process (counted from 0); \<open>signal n\<close> tells whether SIGINT or SIGTERM is delivered while
  request \<open>n\<close> is under way; the clock is read as a function of the number of requests made
  so far. The markup functions computed with lxml are parameters as well:
  \<open>lot_id_query\<close> is the query of \<open>extract_lot_ids\<close>, and \<open>parse_lot_table\<close> (parsers.py)
  is left open as a whole, a total function, since it catches every exception.
\<close>

record env =
  transport :: "nat \<Rightarrow> string \<Rightarrow> form_data \<Rightarrow> outcome"
  signal :: "nat \<Rightarrow> bool"
  clock :: "nat \<Rightarrow> timestamp"
  lot_id_query :: "string \<Rightarrow> lxml_error + string list"
  parse_lot_table :: "string \<Rightarrow> string \<Rightarrow> string option pydict"

text \<open>
  The effects of the process on the outside: the requests sent and the delays slept, both
  in order, and the flag that the signal handler \<open>_request_shutdown\<close> sets. Delays are
  Python floats; they are computed here in exact rational arithmetic.
\<close>

record io_state =
  requests :: "(string \<times> form_data) list"
  slept :: "rat list"
  shutdown_requested :: bool

record http_config =
  max_retries :: nat
  base_delay :: rat
  rate_limit_delay :: rat

text \<open>The defaults of the constructor, from config.py: \<open>MAX_RETRIES\<close>,
  \<open>RETRY_BASE_DELAY\<close>, \<open>RATE_LIMIT_DELAY\<close>.\<close>

definition default_client :: http_config where
  "default_client = \<lparr>max_retries = 3, base_delay = 3, rate_limit_delay = 10\<rparr>"

definition sleep :: "rat \<Rightarrow> io_state \<Rightarrow> io_state" where
  "sleep wait_time s = s\<lparr>slept := slept s @ [wait_time]\<rparr>"

text \<open>\<open>response.raise_for_status()\<close> raises \<open>HTTPError\<close>, a \<open>RequestException\<close>, for a
  status from 400 to 599.\<close>

definition raise_for_status :: "nat \<Rightarrow> bool" where
  "raise_for_status status_code = (400 \<le> status_code \<and> status_code < 600)"

text \<open>One pass through the body of the \<open>for\<close> loop either goes on to the next attempt or
  returns; a raised exception that no clause catches is \<open>Inl\<close>.\<close>

datatype step =
    Continue io_state
  | Return "string + response option" io_state

text \<open>The body shared by the \<open>except\<close> clauses for \<open>Timeout\<close>, \<open>ConnectionError\<close> and
  \<open>RequestException\<close>, and by the branch for a 5xx status.\<close>

definition backoff_or_give_up :: "http_config \<Rightarrow> nat \<Rightarrow> io_state \<Rightarrow> step" where
  "backoff_or_give_up cfg attempt s =
     (if attempt < max_retries cfg
      then Continue (sleep (base_delay cfg * 2 ^ (attempt - 1)) s)
      else Return (Inr None) s)"

definition attempt_once ::
  "env \<Rightarrow> http_config \<Rightarrow> string \<Rightarrow> form_data \<Rightarrow> nat \<Rightarrow> io_state \<Rightarrow> step" where
  "attempt_once E cfg url data attempt s =
     (let n = length (requests s);
          s1 = s\<lparr>requests := requests s @ [(url, data)],
                 shutdown_requested := (shutdown_requested s \<or> signal E n)\<rparr>
      in case transport E n url data of
           Response status_code text \<Rightarrow>
             if status_code = 429
             then Continue (sleep (rate_limit_delay cfg * of_nat attempt) s1)
             else if 500 \<le> status_code \<and> status_code < 600
             then backoff_or_give_up cfg attempt s1
             else if raise_for_status status_code
             then backoff_or_give_up cfg attempt s1
             else Return (Inr (Some (status_code, text))) s1
         | Timeout \<Rightarrow> backoff_or_give_up cfg attempt s1
         | ConnectionError e \<Rightarrow> backoff_or_give_up cfg attempt s1
         | RequestException e \<Rightarrow> backoff_or_give_up cfg attempt s1
         | Raised e \<Rightarrow> Return (Inl e) s1)"

text \<open>\<open>for attempt in range(1, self.max_retries + 1)\<close>, from the given attempt on; when
  the range is used up the function returns \<open>None\<close>.\<close>

function post_attempts ::
  "env \<Rightarrow> http_config \<Rightarrow> string \<Rightarrow> form_data \<Rightarrow> nat \<Rightarrow> io_state
     \<Rightarrow> (string + response option) \<times> io_state" where
  "post_attempts E cfg url data attempt s =
     (if max_retries cfg < attempt then (Inr None, s)
      else case attempt_once E cfg url data attempt s of
             Continue s' \<Rightarrow> post_attempts E cfg url data (Suc attempt) s'
           | Return r s' \<Rightarrow> (r, s'))"
  by pat_completeness auto
termination
  by (relation "measure (\<lambda>(E, cfg, url, data, attempt, s). Suc (max_retries cfg) - attempt)")
     auto

declare post_attempts.simps [simp del]

definition post_with_retry ::
  "env \<Rightarrow> http_config \<Rightarrow> string \<Rightarrow> form_data \<Rightarrow> io_state
     \<Rightarrow> (string + response option) \<times> io_state" where
  "post_with_retry E cfg url data s = post_attempts E cfg url data 1 s"

text \<open>\<open>if response and response.status_code == 200\<close>: a response is truthy when its
  status is not an error status.\<close>

definition response_text :: "response option \<Rightarrow> string option" where
  "response_text response =
     (case response of
        None \<Rightarrow> None
      | Some (status_code, text) \<Rightarrow>
          if \<not> raise_for_status status_code \<and> status_code = 200 then Some text else None)"

definition get_lot_ids_page ::
  "env \<Rightarrow> http_config \<Rightarrow> string \<Rightarrow> io_state \<Rightarrow> (string + string option) \<times> io_state" where
  "get_lot_ids_page E cfg announce_url s =
     (let url = announce_url @ ''?tab=lots#''
      in case post_with_retry E cfg url None s of
           (Inl e, s') \<Rightarrow> (Inl e, s')
         | (Inr response, s') \<Rightarrow> (Inr (response_text response), s'))"

definition AJAX_LOAD_LOT_URL :: "string \<Rightarrow> string" where
  "AJAX_LOAD_LOT_URL ann =
     ''https://goszakup.gov.kz/ru/announce/ajax_load_lot/'' @ ann @ ''?tab=lots''"

definition get_lot_detail ::
  "env \<Rightarrow> http_config \<Rightarrow> string \<Rightarrow> string \<Rightarrow> io_state
     \<Rightarrow> (string + string option) \<times> io_state" where
  "get_lot_detail E cfg ann lot_id s =
     (let url = AJAX_LOAD_LOT_URL ann;
          payload = [(''id'', lot_id)]
      in case post_with_retry E cfg url (Some payload) s of
           (Inl e, s') \<Rightarrow> (Inl e, s')
         | (Inr response, s') \<Rightarrow> (Inr (response_text response), s'))"

subsection \<open>parsers.py: the announcement id\<close>

text \<open>\<open>url.rstrip('/')\<close> and \<open>str.split('/')\<close>.\<close>

definition rstrip_slash :: "string \<Rightarrow> string" where
  "rstrip_slash url = rev (dropWhile (\<lambda>c. c = CHR ''/'') (rev url))"

fun split_slash :: "string \<Rightarrow> string list" where
  "split_slash [] = [[]]"
| "split_slash (c # cs) =
     (if c = CHR ''/'' then [] # split_slash cs
      else case split_slash cs of [] \<Rightarrow> [[c]] | p # ps \<Rightarrow> (c # p) # ps)"

text \<open>\<open>parts.index(x)\<close> for an \<open>x\<close> that occurs in \<open>parts\<close>.\<close>

definition list_index :: "'a \<Rightarrow> 'a list \<Rightarrow> nat" where
  "list_index x xs = length (takeWhile (\<lambda>y. y \<noteq> x) xs)"

definition extract_announce_id :: "string \<Rightarrow> string option" where
  "extract_announce_id url =
     (let parts = split_slash (rstrip_slash url)
      in if ''index'' \<in> set parts
         then (let idx = list_index ''index'' parts
               in if idx + 1 < length parts then Some (parts ! (idx + 1)) else None)
         else None)"

subsection \<open>main.py\<close>

text \<open>\<open>REQUEST_DELAY\<close> of config.py.\<close>

definition REQUEST_DELAY :: rat where
  "REQUEST_DELAY = 0"

record parser_config =
  resume :: bool
  max_urls :: "int option"

text \<open>The state of a \<open>TenderParser\<close>: the effects on the outside, the database, and the
  counters of \<open>self.stats\<close>.\<close>

record parser_state =
  io :: io_state
  db :: database
  urls_processed :: nat
  lots_found :: nat
  lots_saved :: nat
  lots_failed :: nat

text \<open>\<open>datetime.now()\<close>, and the current time of the database engine.\<close>

definition datetime_now :: "env \<Rightarrow> io_state \<Rightarrow> timestamp" where
  "datetime_now E s = clock E (length (requests s))"

text \<open>The input file: missing, not JSON, or a document whose \<open>links\<close> entry, when there is
  one, is a list of URL strings.\<close>

datatype json_file = FileNotFound | InvalidJSON | Document "string list option"

text \<open>The slice \<open>urls[:n]\<close>; a negative \<open>n\<close> counts from the end.\<close>

definition py_prefix :: "int \<Rightarrow> 'a list \<Rightarrow> 'a list" where
  "py_prefix n xs =
     (if 0 \<le> n then take (nat n) xs else take (nat (int (length xs) + n)) xs)"

text \<open>\<open>load_urls\<close>; \<open>Inl 1\<close> is \<open>sys.exit(1)\<close>.\<close>

definition load_urls :: "parser_config \<Rightarrow> database \<Rightarrow> json_file \<Rightarrow> nat + string list" where
  "load_urls cfg store file =
     (case file of
        FileNotFound \<Rightarrow> Inl 1
      | InvalidJSON \<Rightarrow> Inl 1
      | Document links \<Rightarrow>
          (let urls = (case links of None \<Rightarrow> [] | Some l \<Rightarrow> l);
               urls = (if resume cfg
                       then (let pending = set (get_pending_urls store)
                             in if pending \<noteq> {}
                                then filter (\<lambda>url. url \<in> pending \<or> url \<notin> pending) urls
                                else urls)
                       else urls);
               urls = (case max_urls cfg of
                         None \<Rightarrow> urls
                       | Some n \<Rightarrow>
                           if n \<noteq> 0 \<and> int (length urls) > n then py_prefix n urls else urls)
           in Inr urls))"

text \<open>\<open>process_lot\<close>: every exception inside is caught and counted in \<open>lots_failed\<close>.\<close>

definition process_lot :: "env \<Rightarrow> string \<Rightarrow> string \<Rightarrow> string \<Rightarrow> parser_state \<Rightarrow> parser_state" where
  "process_lot E announce_url ann lot_id s =
     (case get_lot_detail E default_client ann lot_id (io s) of
        (Inl e, io') \<Rightarrow> s\<lparr>io := io', lots_failed := lots_failed s + 1\<rparr>
      | (Inr None, io') \<Rightarrow> s\<lparr>io := io', lots_failed := lots_failed s + 1\<rparr>
      | (Inr (Some html_content), io') \<Rightarrow>
          if html_content = [] then s\<lparr>io := io', lots_failed := lots_failed s + 1\<rparr>
          else
            (let parsed_data = parse_lot_table E html_content lot_id;
                 (pstatus, msg) = determine_parse_status parsed_data
             in case insert_lot_detail (datetime_now E io') announce_url lot_id ann parsed_data pstatus
                       msg (db s) of
                  Inl e \<Rightarrow> s\<lparr>io := io', lots_failed := lots_failed s + 1\<rparr>
                | Inr (success, store) \<Rightarrow>
                    if success
                    then s\<lparr>io := io', db := increment_processed announce_url store,
                           lots_saved := lots_saved s + 1\<rparr>
                    else s\<lparr>io := io', db := store\<rparr>))"

text \<open>The loop over the lot ids: the shutdown flag is looked at before each lot; after a
  lot the process sleeps \<open>REQUEST_DELAY\<close>.\<close>

fun lot_loop :: "env \<Rightarrow> string \<Rightarrow> string \<Rightarrow> string list \<Rightarrow> parser_state \<Rightarrow> parser_state" where
  "lot_loop E announce_url ann [] s = s"
| "lot_loop E announce_url ann (lot_id # lot_ids) s =
     (if shutdown_requested (io s) then s
      else (let s1 = process_lot E announce_url ann lot_id s
            in lot_loop E announce_url ann lot_ids (s1\<lparr>io := sleep REQUEST_DELAY (io s1)\<rparr>)))"

text \<open>The \<open>try\<close> block of \<open>process_url\<close> with its \<open>except\<close> clause.\<close>

definition process_url_try :: "env \<Rightarrow> string \<Rightarrow> string \<Rightarrow> parser_state \<Rightarrow> parser_state" where
  "process_url_try E announce_url ann s =
     (case get_lot_ids_page E default_client announce_url (io s) of
        (Inl e, io') \<Rightarrow>
          s\<lparr>io := io',
            db := update_progress (datetime_now E io') announce_url (Some ''failed'') None None None
                    (Some e) (db s)\<rparr>
      | (Inr None, io') \<Rightarrow>
          s\<lparr>io := io',
            db := update_progress (datetime_now E io') announce_url (Some ''failed'') None None None
                    (Some ''Failed to fetch lot IDs page'') (db s)\<rparr>
      | (Inr (Some html_content), io') \<Rightarrow>
          if html_content = []
          then s\<lparr>io := io',
                 db := update_progress (datetime_now E io') announce_url (Some ''failed'') None None None
                         (Some ''Failed to fetch lot IDs page'') (db s)\<rparr>
          else
            (let lot_ids = extract_lot_ids (lot_id_query E) html_content announce_url
             in if lot_ids = []
                then s\<lparr>io := io',
                       db := update_progress (datetime_now E io') announce_url (Some ''completed'')
                               (Some 0) (Some 0) None None (db s)\<rparr>
                else
                  (let s1 = s\<lparr>io := io',
                               db := update_progress (datetime_now E io') announce_url None
                                       (Some (int (length lot_ids))) None None None (db s),
                               lots_found := lots_found s + length lot_ids\<rparr>;
                       s2 = lot_loop E announce_url ann lot_ids s1
                   in s2\<lparr>db := update_progress (datetime_now E (io s2)) announce_url
                                    (Some ''completed'') None None None None (db s2),
                          urls_processed := urls_processed s2 + 1\<rparr>)))"

definition process_url :: "env \<Rightarrow> parser_config \<Rightarrow> string \<Rightarrow> parser_state \<Rightarrow> parser_state" where
  "process_url E cfg announce_url s =
     (case extract_announce_id announce_url of
        None \<Rightarrow> s
      | Some ann \<Rightarrow>
          if ann = [] then s
          else
            (let (progress, store) =
                   get_or_create_progress (datetime_now E (io s)) announce_url ann (db s)
             in if status progress = ''completed'' \<and> resume cfg then s\<lparr>db := store\<rparr>
                else process_url_try E announce_url ann
                       (s\<lparr>db := update_progress (datetime_now E (io s)) announce_url
                                   (Some ''processing'') None None None None store\<rparr>)))"

text \<open>The loop of \<open>run\<close> over the URLs, and \<open>run\<close>; \<open>Inl\<close> is the exit code of
  \<open>sys.exit\<close> in \<open>load_urls\<close>.\<close>

fun url_loop :: "env \<Rightarrow> parser_config \<Rightarrow> string list \<Rightarrow> parser_state \<Rightarrow> parser_state" where
  "url_loop E cfg [] s = s"
| "url_loop E cfg (url # urls) s =
     (if shutdown_requested (io s) then s
      else url_loop E cfg urls (process_url E cfg url s))"

definition run :: "env \<Rightarrow> parser_config \<Rightarrow> json_file \<Rightarrow> parser_state \<Rightarrow> nat + parser_state" where
  "run E cfg file s =
     (case load_urls cfg (db s) file of
        Inl code \<Rightarrow> Inl code
      | Inr urls \<Rightarrow> if urls = [] then Inr s else Inr (url_loop E cfg urls s))"

subsection \<open>scraper.py\<close>

text \<open>
  The browser is the outside world of the link scraper. Loading page \<open>n\<close> either fails
  (\<open>page.goto\<close> raises) or gives a page: the status of the response when there is one,
  whether the dropdown interaction of the first page goes through, and the elements that
  match the link selector (\<open>None\<close> when waiting for the selector raises). An element gives
  its \<open>href\<close> attribute, possibly none, or raises. \<open>urljoin\<close> of the base URL with an
  \<open>href\<close> is a parameter.
\<close>

datatype element = Href "string option" | Detached

datatype page_view = Navigation_error | Loaded "nat option" bool "element list option"

record browser =
  goto :: "int \<Rightarrow> page_view"
  urljoin :: "string \<Rightarrow> string"

record scraper_config =
  max_links :: "int option"
  start_page :: int
  CHECKPOINT_INTERVAL :: int
  PAGE_DELAY :: rat

text \<open>The state of a \<open>GoszakupScraper\<close>, with the effects on the outside: the page numbers
  loaded, the snapshots saved (a snapshot is the set of links, written sorted) and the
  delays slept between pages.\<close>

record scraper_state =
  all_links :: "string set"
  pages_scraped :: nat
  visited :: "int list"
  checkpoints :: "string set list"
  page_sleeps :: "rat list"

text \<open>\<open>max_links and len(self.all_links) >= max_links\<close>.\<close>

definition reached_max_links :: "int option \<Rightarrow> string set \<Rightarrow> bool" where
  "reached_max_links limit links =
     (case limit of None \<Rightarrow> False | Some m \<Rightarrow> m \<noteq> 0 \<and> int (card links) \<ge> m)"

text \<open>The loop of \<open>extract_links\<close> over the elements; \<open>None\<close> for \<open>new_links\<close> is an
  exception, which leaves the links added so far in the set.\<close>

fun extract_loop ::
  "(string \<Rightarrow> string) \<Rightarrow> int option \<Rightarrow> element list \<Rightarrow> string set \<Rightarrow> string list
     \<Rightarrow> string list option \<times> string set" where
  "extract_loop join limit [] links new_links = (Some new_links, links)"
| "extract_loop join limit (e # es) links new_links =
     (if reached_max_links limit links then (Some new_links, links)
      else case e of
             Detached \<Rightarrow> (None, links)
           | Href None \<Rightarrow> extract_loop join limit es links new_links
           | Href (Some href) \<Rightarrow>
               if href = [] then extract_loop join limit es links new_links
               else (let absolute_url = join href
                     in if absolute_url \<notin> links
                        then (if reached_max_links limit (insert absolute_url links)
                              then (Some (new_links @ [absolute_url]), insert absolute_url links)
                              else extract_loop join limit es (insert absolute_url links)
                                     (new_links @ [absolute_url]))
                        else extract_loop join limit es links new_links))"

definition extract_links ::
  "browser \<Rightarrow> int option \<Rightarrow> element list option \<Rightarrow> string set \<Rightarrow> string list \<times> string set" where
  "extract_links B limit elements links =
     (case elements of
        None \<Rightarrow> ([], links)
      | Some es \<Rightarrow>
          (case extract_loop (urljoin B) limit es links [] of
             (None, links') \<Rightarrow> ([], links')
           | (Some new_links, links') \<Rightarrow> (new_links, links')))"

text \<open>What \<open>scrape_page\<close> makes of a page and of the set of links: whether the page counts
  as scraped, the number it returns, and the set afterwards.\<close>

definition page_outcome ::
  "browser \<Rightarrow> scraper_config \<Rightarrow> int \<Rightarrow> bool \<Rightarrow> string set \<Rightarrow> bool \<times> nat \<times> string set" where
  "page_outcome B cfg page_num is_first_page links =
     (case goto B page_num of
        Navigation_error \<Rightarrow> (False, 0, links)
      | Loaded response_status dropdown elements \<Rightarrow>
          if response_status = Some 404 then (False, 0, links)
          else if (case response_status of None \<Rightarrow> False | Some c \<Rightarrow> c \<ge> 400)
          then (False, 0, links)
          else if is_first_page \<and> \<not> dropdown then (False, 0, links)
          else (case extract_links B (max_links cfg) elements links of
                  (new_links, links') \<Rightarrow> (True, length new_links, links')))"

definition scrape_page ::
  "browser \<Rightarrow> scraper_config \<Rightarrow> int \<Rightarrow> bool \<Rightarrow> scraper_state \<Rightarrow> nat \<times> scraper_state" where
  "scrape_page B cfg page_num is_first_page s =
     (case page_outcome B cfg page_num is_first_page (all_links s) of
        (scraped, new_links_count, links') \<Rightarrow>
          (new_links_count,
           s\<lparr>all_links := links',
             pages_scraped := (if scraped then pages_scraped s + 1 else pages_scraped s),
             visited := visited s @ [page_num]\<rparr>))"

definition save_checkpoint :: "scraper_state \<Rightarrow> scraper_state" where
  "save_checkpoint s = s\<lparr>checkpoints := checkpoints s @ [all_links s]\<rparr>"

text \<open>How the \<open>while True\<close> loop of \<open>run\<close> ends: by \<open>break\<close>, or by the exception of
  \<open>pages_scraped % CHECKPOINT_INTERVAL\<close> when the interval is 0. A loop that goes on for
  ever has no result.\<close>

datatype loop_exit = Finished | ZeroDivisionError

partial_function (option) scrape_loop ::
  "browser \<Rightarrow> scraper_config \<Rightarrow> int \<Rightarrow> nat \<Rightarrow> scraper_state
     \<Rightarrow> (loop_exit \<times> scraper_state) option" where
  "scrape_loop B cfg page_num consecutive_empty_pages s =
     (if reached_max_links (max_links cfg) (all_links s) then Some (Finished, s)
      else
        (case scrape_page B cfg page_num (page_num = start_page cfg) s of
           (new_links_count, s1) \<Rightarrow>
             (let empty = (if new_links_count = 0 then consecutive_empty_pages + 1 else 0)
              in if new_links_count = 0 \<and> empty \<ge> 3 then Some (Finished, s1)
                 else if CHECKPOINT_INTERVAL cfg = 0 then Some (ZeroDivisionError, s1)
                 else
                   (let s2 = (if int (pages_scraped s1) mod CHECKPOINT_INTERVAL cfg = 0
                              then save_checkpoint s1 else s1)
                    in if reached_max_links (max_links cfg) (all_links s2)
                       then Some (Finished, s2)
                       else scrape_loop B cfg (page_num + 1) empty
                              (if PAGE_DELAY cfg > 0
                               then s2\<lparr>page_sleeps := page_sleeps s2 @ [PAGE_DELAY cfg]\<rparr>
                               else s2)))))"

declare scrape_loop.simps [code]

text \<open>\<open>run\<close> of the scraper, from a browser that is set up: the loop from the start page,
  and the final save, which is made after a \<open>break\<close> and after an exception alike.\<close>

definition scraper_run ::
  "browser \<Rightarrow> scraper_config \<Rightarrow> scraper_state \<Rightarrow> (loop_exit \<times> scraper_state) option" where
  "scraper_run B cfg s =
     (case scrape_loop B cfg (start_page cfg) 0 s of
        None \<Rightarrow> None
      | Some (ex, s') \<Rightarrow> Some (ex, save_checkpoint s'))"

subsection \<open>The specification's wording, for comparison\<close>

text \<open>Deduplication that keeps the first occurrence of every value.\<close>

fun first_occurrences :: "'a list \<Rightarrow> 'a list" where
  "first_occurrences [] = []"
| "first_occurrences (x # xs) = x # first_occurrences (filter (\<lambda>y. y \<noteq> x) xs)"

text \<open>The number of the twelve fields that a mapping fills.\<close>

definition non_null_fields :: "string option pydict \<Rightarrow> nat" where
  "non_null_fields d = length (filter (\<lambda>k. dict_get d k \<noteq> None) FIELD_MAPPING_values)"

text \<open>What one call of \<open>update_progress\<close> does to a row of its URL, column by column.\<close>

definition sparse_update ::
  "timestamp \<Rightarrow> string option \<Rightarrow> int option \<Rightarrow> int option \<Rightarrow> int option \<Rightarrow> string option
     \<Rightarrow> progress \<Rightarrow> progress" where
  "sparse_update now st found processed errors err r =
     r\<lparr>status := (case st of None \<Rightarrow> status r | Some v \<Rightarrow> if v = [] then status r else v),
       started_at := (if st = Some ''processing'' \<and> found = None then Some now
                      else started_at r),
       completed_at := (if st = Some ''completed'' then Some now else completed_at r),
       lot_ids_found := (case found of None \<Rightarrow> lot_ids_found r | Some n \<Rightarrow> n),
       lot_ids_processed := (case processed of None \<Rightarrow> lot_ids_processed r | Some n \<Rightarrow> n),
       error_count := (case errors of None \<Rightarrow> error_count r | Some n \<Rightarrow> n),
       last_error := (case err of None \<Rightarrow> last_error r | Some e \<Rightarrow> Some e)\<rparr>"

text \<open>What the store holds for a URL: its progress row and its lot rows.\<close>

definition url_records :: "string \<Rightarrow> database \<Rightarrow> progress option \<times> lot_detail list" where
  "url_records url store =
     (find_progress url store, filter (\<lambda>r. lot_url r = url) (lot_details store))"

text \<open>Page \<open>page_num\<close> contributes no new link to the set \<open>links\<close>.\<close>

definition page_adds_nothing :: "browser \<Rightarrow> scraper_config \<Rightarrow> int \<Rightarrow> string set \<Rightarrow> bool" where
  "page_adds_nothing B cfg page_num links =
     (snd (snd (page_outcome B cfg page_num (page_num = start_page cfg) links)) = links)"

subsection \<open>Example inputs\<close>

definition parsed_none :: "string option pydict" where
  "parsed_none = map (\<lambda>k. (k, None)) FIELD_MAPPING_values"

definition parsed_seven :: "string option pydict" where
  "parsed_seven =
     [(''lot_number'', Some ''1''), (''lot_status'', Some ''open''),
      (''customer_bin'', Some ''990140000385''), (''customer_name'', Some ''akimat''),
      (''tru_code'', Some ''262011''), (''tru_name'', Some ''computer''),
      (''brief_description'', Some ''portable''), (''additional_description'', None),
      (''price_per_unit'', None), (''unit_of_measurement'', None), (''quantity'', None),
      (''delivery_location_kato'', None)]"

definition parsed_all :: "string option pydict" where
  "parsed_all = map (\<lambda>k. (k, Some ''x'')) FIELD_MAPPING_values"

definition empty_db :: database where
  "empty_db = \<lparr>lot_details = [], scraping_progress = []\<rparr>"

text \<open>A first run on the URL \<open>u\<close>: the row is created at time 1, set to \<open>processing\<close> at
  time 2 and to \<open>failed\<close> at time 3.\<close>

definition first_run_db :: database where
  "first_run_db =
     update_progress 3 ''u'' (Some ''failed'') None None None
         (Some ''Failed to fetch lot IDs page'')
       (update_progress 2 ''u'' (Some ''processing'') None None None None
          (snd (get_or_create_progress 1 ''u'' ''7'' empty_db)))"

text \<open>No request made yet, nothing slept, no signal received.\<close>

definition io0 :: io_state where
  "io0 = \<lparr>requests = [], slept = [], shutdown_requested = False\<rparr>"

text \<open>An outside world with the given transport, no signal, a clock that shows the number
  of requests, and markup without lot ids or table rows.\<close>

definition quiet_env :: "(nat \<Rightarrow> string \<Rightarrow> form_data \<Rightarrow> outcome) \<Rightarrow> env" where
  "quiet_env t = \<lparr>transport = t, signal = (\<lambda>n. False), clock = (\<lambda>n. n),
                  lot_id_query = (\<lambda>h. Inr []), parse_lot_table = (\<lambda>h l. [])\<rparr>"

text \<open>A fresh parser, and an outside world in which every request is answered with status
  200, every page lists the lots 1 and 2, every lot table is complete, and a shutdown
  signal arrives during request \<open>k\<close>.\<close>

definition parser0 :: parser_state where
  "parser0 = \<lparr>io = io0, db = empty_db, urls_processed = 0, lots_found = 0, lots_saved = 0,
              lots_failed = 0\<rparr>"

definition interrupted_env :: "nat \<Rightarrow> env" where
  "interrupted_env k =
     \<lparr>transport = (\<lambda>n url data. Response 200 ''<html>''), signal = (\<lambda>n. n = k),
      clock = (\<lambda>n. n), lot_id_query = (\<lambda>h. Inr [''1'', ''2'']),
      parse_lot_table = (\<lambda>h l. parsed_all)\<rparr>"

text \<open>The state in which a new process starts, nothing sent yet, on the database that
  three earlier calls left: \<open>a/index/1\<close> went through, both lots stored and the row
  \<open>completed\<close>; \<open>h/index/7\<close> was interrupted behind lot 1 and then, in a run without
  resume mode, timed out on its page, so lot 1 is stored and the row is \<open>failed\<close>.\<close>

definition earlier_runs :: parser_state where
  "earlier_runs =
     parser0\<lparr>db := db (process_url (quiet_env (\<lambda>n url data. Timeout))
                           \<lparr>resume = False, max_urls = None\<rparr> ''h/index/7''
                           (process_url (interrupted_env 4) \<lparr>resume = True, max_urls = None\<rparr>
                              ''h/index/7''
                              (process_url (interrupted_env 9)
                                 \<lparr>resume = True, max_urls = None\<rparr> ''a/index/1'' parser0)))\<rparr>"

text \<open>A listing of five pages and more: two links on page 1, the same two on page 2, page 3
  is not found, page 4 does not load, and a third link on every later page.\<close>

definition listing :: browser where
  "listing =
     \<lparr>goto = (\<lambda>n. if n = 1 then Loaded (Some 200) True
                                   (Some [Href (Some ''/a''), Href None, Href (Some ''/b'')])
                    else if n = 2 then Loaded (Some 200) True
                                   (Some [Href (Some ''/b''), Href (Some ''/a'')])
                    else if n = 3 then Loaded (Some 404) True None
                    else if n = 4 then Navigation_error
                    else Loaded (Some 200) True (Some [Href (Some ''/c'')])),
      urljoin = (\<lambda>href. ''g'' @ href)\<rparr>"

text \<open>A listing whose page 2 shows a new link and then an element that raises; every page
  from the third on shows a known link only.\<close>

definition raising_listing :: browser where
  "raising_listing =
     \<lparr>goto = (\<lambda>n. if n = 1 then Loaded (Some 200) True
                                   (Some [Href (Some ''/a''), Href (Some ''/b'')])
                    else if n = 2 then Loaded (Some 200) True
                                   (Some [Href (Some ''/c''), Detached])
                    else Loaded (Some 200) True (Some [Href (Some ''/a'')])),
      urljoin = (\<lambda>href. ''g'' @ href)\<rparr>"

definition scraper0 :: scraper_state where
  "scraper0 = \<lparr>all_links = {}, pages_scraped = 0, visited = [], checkpoints = [],
               page_sleeps = []\<rparr>"

definition unlimited :: scraper_config where
  "unlimited = \<lparr>max_links = None, start_page = 1, CHECKPOINT_INTERVAL = 10, PAGE_DELAY = 5 / 2\<rparr>"

definition two_links :: scraper_config where
  "two_links = \<lparr>max_links = Some 2, start_page = 1, CHECKPOINT_INTERVAL = 10, PAGE_DELAY = 5 / 2\<rparr>"

section \<open>Properties\<close>

subsection \<open>Extraction of lot ids\<close>

lemma unique_loop_first_occurrences:
  "unique_loop xs seen acc =
     acc @ first_occurrences (filter (\<lambda>x. x \<noteq> [] \<and> x \<notin> seen) xs)"
proof (induction xs arbitrary: seen acc)
  case Nil
  show ?case by simp
next
  case (Cons x xs)
  have "(\<lambda>y. y \<noteq> [] \<and> y \<noteq> x \<and> y \<notin> seen) = (\<lambda>y. y \<noteq> [] \<and> y \<notin> seen \<and> y \<noteq> x)"
    by auto
  then show ?case
    by (simp add: Cons.IH)
qed

lemma first_occurrences_set: "set (first_occurrences xs) = set xs"
  by (induction xs rule: first_occurrences.induct) auto

lemma first_occurrences_distinct: "distinct (first_occurrences xs)"
  by (induction xs rule: first_occurrences.induct) (auto simp: first_occurrences_set)

text \<open>
  Claim C5. \<open>extract_lot_ids\<close> never raises: an exception of the markup parser gives the
  empty list. Otherwise it returns the non-empty \<open>data-lot-id\<close> values, each once, in the
  order of their first occurrence; the values 5, 3, 5, 7 give 5, 3, 7, and markup with no
  such attribute gives the empty list.
\<close>

theorem extract_lot_ids_dedup:
  "extract_lot_ids xpath_lot_ids html_content announce_url =
     (case xpath_lot_ids html_content of
        Inl e \<Rightarrow> []
      | Inr lot_ids \<Rightarrow> first_occurrences (filter (\<lambda>v. v \<noteq> []) lot_ids))
   \<and> distinct (extract_lot_ids xpath_lot_ids html_content announce_url)
   \<and> (\<forall>lot_ids. xpath_lot_ids html_content = Inr lot_ids \<longrightarrow>
         set (extract_lot_ids xpath_lot_ids html_content announce_url) = set lot_ids - {[]})
   \<and> (xpath_lot_ids html_content = Inr [''5'', ''3'', ''5'', ''7''] \<longrightarrow>
         extract_lot_ids xpath_lot_ids html_content announce_url = [''5'', ''3'', ''7''])
   \<and> (xpath_lot_ids html_content = Inr [] \<longrightarrow>
         extract_lot_ids xpath_lot_ids html_content announce_url = [])"
proof -
  have eq: "extract_lot_ids xpath_lot_ids html_content announce_url =
     (case xpath_lot_ids html_content of
        Inl e \<Rightarrow> []
      | Inr lot_ids \<Rightarrow> first_occurrences (filter (\<lambda>v. v \<noteq> []) lot_ids))"
    by (simp add: extract_lot_ids_def unique_loop_first_occurrences split: sum.splits)
  have "distinct (extract_lot_ids xpath_lot_ids html_content announce_url)"
    by (simp add: eq first_occurrences_distinct split: sum.splits)
  moreover have "\<forall>lot_ids. xpath_lot_ids html_content = Inr lot_ids \<longrightarrow>
         set (extract_lot_ids xpath_lot_ids html_content announce_url) = set lot_ids - {[]}"
    by (auto simp: eq first_occurrences_set)
  moreover have "xpath_lot_ids html_content = Inr [''5'', ''3'', ''5'', ''7''] \<longrightarrow>
         extract_lot_ids xpath_lot_ids html_content announce_url = [''5'', ''3'', ''7'']"
    by (simp add: eq)
  moreover have "xpath_lot_ids html_content = Inr [] \<longrightarrow>
         extract_lot_ids xpath_lot_ids html_content announce_url = []"
    by (simp add: eq)
  ultimately show ?thesis
    using eq by blast
qed

theorem extract_lot_ids_dedup_witness:
  "extract_lot_ids (\<lambda>h. if h = [] then Inl (LxmlError ''Document is empty'')
                          else Inr [''5'', ''3'', [], ''5'', ''7'']) ''<a>'' ''u''
     = [''5'', ''3'', ''7'']
   \<and> extract_lot_ids (\<lambda>h. if h = [] then Inl (LxmlError ''Document is empty'')
                            else Inr [''5'', ''3'', [], ''5'', ''7'']) [] ''u'' = []"
  using extract_lot_ids_dedup
          [of "\<lambda>h. if h = [] then Inl (LxmlError ''Document is empty'')
                    else Inr [''5'', ''3'', [], ''5'', ''7'']" "''<a>''" "''u''"]
        extract_lot_ids_dedup
          [of "\<lambda>h. if h = [] then Inl (LxmlError ''Document is empty'')
                    else Inr [''5'', ''3'', [], ''5'', ''7'']" "[]" "''u''"]
  by simp

subsection \<open>Classification of a parsed record\<close>

lemma values_via_keys:
  "distinct (map fst d) \<Longrightarrow> map snd d = map (\<lambda>k. dict_get d k) (map fst d)"
proof (induction d)
  case Nil
  show ?case by simp
next
  case (Cons p d)
  obtain k v where p: "p = (k, v)" by (cases p)
  from Cons.prems p have k: "k \<notin> fst ` set d" and dist: "distinct (map fst d)"
    by auto
  have "map (\<lambda>k'. dict_get ((k, v) # d) k') (map fst d) = map (\<lambda>k'. dict_get d k') (map fst d)"
    using k by (intro map_cong) (auto simp: dict_get_def)
  with Cons.IH [OF dist] show ?case
    by (simp add: p dict_get_def)
qed

lemma count_via_keys:
  assumes "distinct (map fst d)" and "distinct ks" and "set (map fst d) = set ks"
  shows "length (filter P (map snd d)) = length (filter (\<lambda>k. P (dict_get d k)) ks)"
proof -
  have m: "mset (map fst d) = mset ks"
    by (rule iffD1 [OF set_eq_iff_mset_eq_distinct [OF assms(1,2)] assms(3)])
  have "length (filter P (map snd d)) = length (filter (\<lambda>k. P (dict_get d k)) (map fst d))"
    by (subst values_via_keys [OF assms(1)]) (simp add: filter_map comp_def)
  also have "\<dots> = size (filter_mset (\<lambda>k. P (dict_get d k)) (mset (map fst d)))"
    by (simp only: mset_filter [symmetric] size_mset)
  also have "\<dots> = length (filter (\<lambda>k. P (dict_get d k)) ks)"
    by (simp only: m mset_filter [symmetric] size_mset)
  finally show ?thesis .
qed

lemma FIELD_MAPPING_length: "length FIELD_MAPPING = 12"
  by (simp add: FIELD_MAPPING_def)

lemma FIELD_MAPPING_values_distinct: "distinct FIELD_MAPPING_values"
  by (simp add: FIELD_MAPPING_values_def FIELD_MAPPING_def)

lemma filled_fields_non_null:
  assumes "distinct (map fst d)" and "set (map fst d) = set FIELD_MAPPING_values"
  shows "filled_fields d = non_null_fields d"
  unfolding filled_fields_def non_null_fields_def dict_values_def
  by (rule count_via_keys [OF assms(1) FIELD_MAPPING_values_distinct assms(2)])

lemma non_null_fields_le: "non_null_fields d \<le> 12"
proof -
  have "non_null_fields d \<le> length FIELD_MAPPING_values"
    unfolding non_null_fields_def by (rule length_filter_le)
  then show ?thesis
    by (simp add: FIELD_MAPPING_values_def FIELD_MAPPING_length)
qed

lemma str_nat_12: "str_nat 12 = ''12''"
  by code_simp

lemma str_nat_7: "str_nat 7 = ''7''"
  by code_simp

lemma str_nat_5: "str_nat 5 = ''5''"
  by code_simp

text \<open>
  Claim C4. For a mapping whose keys are the twelve field keys, \<open>determine_parse_status\<close>
  returns \<open>failed\<close> with the message that no fields could be parsed when no field is
  non-null, \<open>partial\<close> with a message naming the number of missing fields when 1 to 11 are
  (7 filled: 5 missing), and \<open>success\<close> with no message when all 12 are.
\<close>

theorem determine_parse_status_tristate:
  assumes "distinct (map fst d)" and "set (map fst d) = set FIELD_MAPPING_values"
  shows "non_null_fields d \<le> 12
    \<and> (non_null_fields d = 0 \<longrightarrow>
         determine_parse_status d = (''failed'', Some ''No fields could be parsed''))
    \<and> (1 \<le> non_null_fields d \<and> non_null_fields d \<le> 11 \<longrightarrow>
         determine_parse_status d =
           (''partial'',
            Some (''Only '' @ str_nat (non_null_fields d) @ ''/12 fields parsed (''
                  @ str_nat (12 - non_null_fields d) @ '' missing)'')))
    \<and> (non_null_fields d = 7 \<longrightarrow>
         determine_parse_status d = (''partial'', Some ''Only 7/12 fields parsed (5 missing)''))
    \<and> (non_null_fields d = 12 \<longrightarrow> determine_parse_status d = (''success'', None))"
proof -
  note eq = filled_fields_non_null [OF assms]
  show ?thesis
    using non_null_fields_le [of d]
    by (auto simp: determine_parse_status_def eq FIELD_MAPPING_length Let_def
                   str_nat_12 str_nat_7 str_nat_5)
qed

lemma example_keys:
  "map fst parsed_none = FIELD_MAPPING_values" "map fst parsed_seven = FIELD_MAPPING_values"
  "map fst parsed_all = FIELD_MAPPING_values"
  by (simp_all add: parsed_none_def parsed_seven_def parsed_all_def comp_def
                    FIELD_MAPPING_values_def FIELD_MAPPING_def)

lemma example_counts:
  "non_null_fields parsed_none = 0" "non_null_fields parsed_seven = 7"
  "non_null_fields parsed_all = 12"
  by (simp_all add: non_null_fields_def dict_get_def parsed_none_def parsed_seven_def
                    parsed_all_def FIELD_MAPPING_values_def FIELD_MAPPING_def)

theorem determine_parse_status_tristate_witness:
  "determine_parse_status parsed_none = (''failed'', Some ''No fields could be parsed'')
   \<and> determine_parse_status parsed_seven
       = (''partial'', Some ''Only 7/12 fields parsed (5 missing)'')
   \<and> determine_parse_status parsed_all = (''success'', None)"
  using determine_parse_status_tristate [of parsed_none]
        determine_parse_status_tristate [of parsed_seven]
        determine_parse_status_tristate [of parsed_all]
  by (simp add: example_keys example_counts FIELD_MAPPING_values_distinct str_nat_7 str_nat_5)

subsection \<open>The lot table\<close>

text \<open>
  Claim C1. Two calls of \<open>insert_lot_detail\<close> with the same \<open>(lot_url, data_lot_id)\<close>, the
  pair not being stored before: the first returns \<open>True\<close> and appends its row, the second
  returns \<open>False\<close> without raising and leaves the store as it was, whatever its other
  arguments; the one stored row of the pair is the row of the first call.
\<close>

theorem insert_lot_detail_twice:
  assumes "(url, lot_id) \<notin> set (map lot_key (lot_details D))"
  shows "insert_lot_detail t1 url lot_id ann1 parsed1 ps1 msg1 D
           = Inr (True, D\<lparr>lot_details :=
                             lot_details D @ [lot_row t1 url lot_id ann1 parsed1 ps1 msg1]\<rparr>)
    \<and> insert_lot_detail t2 url lot_id ann2 parsed2 ps2 msg2
         (D\<lparr>lot_details := lot_details D @ [lot_row t1 url lot_id ann1 parsed1 ps1 msg1]\<rparr>)
           = Inr (False, D\<lparr>lot_details :=
                              lot_details D @ [lot_row t1 url lot_id ann1 parsed1 ps1 msg1]\<rparr>)
    \<and> filter (\<lambda>r. lot_key r = (url, lot_id))
         (lot_details (D\<lparr>lot_details :=
                           lot_details D @ [lot_row t1 url lot_id ann1 parsed1 ps1 msg1]\<rparr>))
           = [lot_row t1 url lot_id ann1 parsed1 ps1 msg1]"
proof -
  have k: "lot_key (lot_row t url lot_id ann parsed ps msg) = (url, lot_id)"
    for t ann parsed ps msg
    by (simp add: lot_key_def lot_row_def)
  have none: "filter (\<lambda>r. lot_key r = (url, lot_id)) (lot_details D) = []"
    using assms by (force simp: filter_empty_conv)
  show ?thesis
    using assms
    by (simp add: insert_lot_detail_def execute_insert_lot_def k none)
qed

theorem insert_lot_detail_twice_witness:
  "insert_lot_detail 1 ''u'' ''84809767'' ''7'' parsed_seven ''partial'' (Some ''m'') empty_db
     = Inr (True, \<lparr>lot_details =
                     [lot_row 1 ''u'' ''84809767'' ''7'' parsed_seven ''partial'' (Some ''m'')],
                   scraping_progress = []\<rparr>)
   \<and> insert_lot_detail 2 ''u'' ''84809767'' ''7'' parsed_all ''success'' None
       \<lparr>lot_details =
          [lot_row 1 ''u'' ''84809767'' ''7'' parsed_seven ''partial'' (Some ''m'')],
        scraping_progress = []\<rparr>
     = Inr (False, \<lparr>lot_details =
                      [lot_row 1 ''u'' ''84809767'' ''7'' parsed_seven ''partial'' (Some ''m'')],
                    scraping_progress = []\<rparr>)"
  using insert_lot_detail_twice
          [of "''u''" "''84809767''" empty_db 1 "''7''" parsed_seven "''partial''" "Some ''m''"
              2 "''7''" parsed_all "''success''" None]
  by (simp add: empty_db_def)

subsection \<open>The progress table\<close>

lemma fold_assign_sparse:
  "fold assign (progress_updates now st found processed errors err) r
     = sparse_update now st found processed errors err r"
  by (cases st; cases found; cases processed; cases errors; cases err)
     (simp_all add: progress_updates_def sparse_update_def)

lemma progress_updates_empty:
  "progress_updates now st found processed errors err = [] \<Longrightarrow>
     sparse_update now st found processed errors err r = r"
  using fold_assign_sparse [of now st found processed errors err r] by simp

lemma update_progress_rows:
  "update_progress now url st found processed errors err D =
     D\<lparr>scraping_progress :=
          map (\<lambda>r. if p_lot_url r = url
                    then sparse_update now st found processed errors err r else r)
              (scraping_progress D)\<rparr>"
proof (cases "progress_updates now st found processed errors err = []")
  case True
  have "map (\<lambda>r. if p_lot_url r = url
                    then sparse_update now st found processed errors err r else r)
              (scraping_progress D) = scraping_progress D"
    by (rule map_idI) (simp add: progress_updates_empty [OF True])
  with True show ?thesis
    by (simp add: update_progress_def)
next
  case False
  then show ?thesis
    by (simp add: update_progress_def fold_assign_sparse)
qed

text \<open>
  Claim C8, as stated, fails: a retry that sets \<open>processing\<close> again does not leave the
  original \<open>started_at\<close>. After the first run the row of \<open>u\<close> is \<open>failed\<close> with
  \<open>started_at = 2\<close>; setting \<open>processing\<close> again at time 9 stamps 9.
\<close>

theorem update_progress_restamps_counterexample:
  "map status (scraping_progress first_run_db) = [''failed'']
   \<and> map started_at (scraping_progress first_run_db) = [Some 2]
   \<and> map started_at
        (scraping_progress
           (update_progress 9 ''u'' (Some ''processing'') None None None None first_run_db))
       = [Some 9]"
  by (simp add: first_run_db_def update_progress_def progress_updates_def
        get_or_create_progress_def find_progress_def empty_db_def Let_def)

text \<open>
  Claim C8, amended. \<open>update_progress\<close> touches only the rows of its URL and only the
  progress table. In such a row the status, the three counters and \<open>last_error\<close> change
  exactly when they are passed (a status that is passed is a non-empty string), each
  independently of the others; \<open>started_at\<close> is stamped by every call that sets the status
  \<open>processing\<close> without passing \<open>lot_ids_found\<close>, the first or a later one, and
  \<open>completed_at\<close> by every call that sets the status \<open>completed\<close>.
\<close>

theorem update_progress_sparse:
  "update_progress now url st found processed errors err D =
     D\<lparr>scraping_progress :=
          map (\<lambda>r. if p_lot_url r = url
                    then sparse_update now st found processed errors err r else r)
              (scraping_progress D)\<rparr>"
  by (rule update_progress_rows)

theorem update_progress_sparse_witness:
  "update_progress 9 ''u'' (Some ''completed'') None (Some 4) None None first_run_db
     = \<lparr>lot_details = [],
        scraping_progress =
          [\<lparr>p_lot_url = ''u'', p_announce_id = ''7'', status = ''completed'',
            lot_ids_found = 0, lot_ids_processed = 4, started_at = Some 2,
            completed_at = Some 9, error_count = 0,
            last_error = Some ''Failed to fetch lot IDs page''\<rparr>]\<rparr>"
proof -
  have fr: "first_run_db
     = \<lparr>lot_details = [],
        scraping_progress =
          [\<lparr>p_lot_url = ''u'', p_announce_id = ''7'', status = ''failed'',
            lot_ids_found = 0, lot_ids_processed = 0, started_at = Some 2,
            completed_at = None, error_count = 0,
            last_error = Some ''Failed to fetch lot IDs page''\<rparr>]\<rparr>"
    by (simp add: first_run_db_def update_progress_def progress_updates_def
          get_or_create_progress_def find_progress_def empty_db_def Let_def)
  show ?thesis
    using update_progress_sparse
            [of 9 "''u''" "Some ''completed''" None "Some 4" None None first_run_db]
    by (simp add: fr sparse_update_def)
qed

subsection \<open>The retrying client\<close>

lemma attempt_once_429:
  "transport E (length (requests s)) url data = Response 429 b \<Longrightarrow>
   attempt_once E cfg url data attempt s =
     Continue (s\<lparr>requests := requests s @ [(url, data)],
                 shutdown_requested := (shutdown_requested s \<or> signal E (length (requests s))),
                 slept := slept s @ [rate_limit_delay cfg * of_nat attempt]\<rparr>)"
  by (simp add: attempt_once_def sleep_def Let_def)

lemma attempt_once_200:
  "transport E (length (requests s)) url data = Response 200 b \<Longrightarrow>
   attempt_once E cfg url data attempt s =
     Return (Inr (Some (200, b)))
       (s\<lparr>requests := requests s @ [(url, data)],
           shutdown_requested := (shutdown_requested s \<or> signal E (length (requests s)))\<rparr>)"
  by (simp add: attempt_once_def Let_def raise_for_status_def)

lemma post_attempts_all_429:
  "(\<forall>j. attempt + j \<le> max_retries cfg \<longrightarrow>
        (\<exists>b. transport E (length (requests s) + j) url data = Response 429 b))
   \<Longrightarrow> fst (post_attempts E cfg url data attempt s) = Inr None
     \<and> slept (snd (post_attempts E cfg url data attempt s))
         = slept s @ map (\<lambda>k. rate_limit_delay cfg * of_nat k) [attempt..<Suc (max_retries cfg)]
     \<and> requests (snd (post_attempts E cfg url data attempt s))
         = requests s @ replicate (Suc (max_retries cfg) - attempt) (url, data)"
proof (induction E cfg url data attempt s rule: post_attempts.induct)
  case (1 E cfg url data attempt s)
  show ?case
  proof (cases "max_retries cfg < attempt")
    case True
    then show ?thesis
      by (simp add: post_attempts.simps [of E cfg url data attempt s])
  next
    case False
    then have le: "attempt \<le> max_retries cfg" by simp
    from "1.prems" [rule_format, of 0] le obtain b where
      b: "transport E (length (requests s)) url data = Response 429 b"
      by auto
    define s' where "s' = s\<lparr>requests := requests s @ [(url, data)],
                 shutdown_requested := (shutdown_requested s \<or> signal E (length (requests s))),
                 slept := slept s @ [rate_limit_delay cfg * of_nat attempt]\<rparr>"
    have once: "attempt_once E cfg url data attempt s = Continue s'"
      unfolding s'_def by (rule attempt_once_429 [OF b])
    have next_429: "\<forall>j. Suc attempt + j \<le> max_retries cfg \<longrightarrow>
        (\<exists>b. transport E (length (requests s') + j) url data = Response 429 b)"
    proof (intro allI impI)
      fix j assume "Suc attempt + j \<le> max_retries cfg"
      then have "attempt + Suc j \<le> max_retries cfg" by simp
      from "1.prems" [rule_format, OF this]
      show "\<exists>b. transport E (length (requests s') + j) url data = Response 429 b"
        by (simp add: s'_def)
    qed
    note IH = "1.IH" [OF False once next_429]
    have unfold: "post_attempts E cfg url data attempt s
                  = post_attempts E cfg url data (Suc attempt) s'"
      using False by (simp add: post_attempts.simps [of E cfg url data attempt s] once)
    have upt: "[attempt..<Suc (max_retries cfg)] = attempt # [Suc attempt..<Suc (max_retries cfg)]"
      using le by (simp add: upt_conv_Cons del: upt_Suc)
    have rep: "replicate (Suc (max_retries cfg) - attempt) (url, data)
               = (url, data) # replicate (Suc (max_retries cfg) - Suc attempt) (url, data)"
      using le by (simp add: Suc_diff_le)
    show ?thesis
      using IH unfolding unfold upt rep by (simp add: s'_def del: upt_Suc)
  qed
qed

lemma post_attempts_continue:
  "attempt \<le> max_retries cfg \<Longrightarrow> attempt_once E cfg url data attempt s = Continue s' \<Longrightarrow>
   post_attempts E cfg url data attempt s = post_attempts E cfg url data (Suc attempt) s'"
  by (simp add: post_attempts.simps [of E cfg url data attempt s])

lemma post_attempts_return:
  "attempt \<le> max_retries cfg \<Longrightarrow> attempt_once E cfg url data attempt s = Return r s' \<Longrightarrow>
   post_attempts E cfg url data attempt s = (r, s')"
  by (simp add: post_attempts.simps [of E cfg url data attempt s])

text \<open>
  Claim C6. When the transport answers 429 to the first two attempts and 200 to the third
  (and three attempts are allowed), \<open>post_with_retry\<close> returns that response after three
  requests, having slept \<open>rate_limit_delay * 1\<close> and then \<open>rate_limit_delay * 2\<close>. When
  it answers 429 to every one of the \<open>max_retries\<close> attempts, the result is \<open>None\<close>, a
  value and not an exception, after a sleep of \<open>rate_limit_delay * attempt\<close> behind each
  attempt.
\<close>

theorem post_with_retry_rate_limited:
  "(3 \<le> max_retries cfg
     \<and> transport E (length (requests s)) url data = Response 429 b1
     \<and> transport E (length (requests s) + 1) url data = Response 429 b2
     \<and> transport E (length (requests s) + 2) url data = Response 200 body
     \<longrightarrow> post_with_retry E cfg url data s =
           (Inr (Some (200, body)),
            s\<lparr>requests := requests s @ [(url, data), (url, data), (url, data)],
              slept := slept s @ [rate_limit_delay cfg * 1, rate_limit_delay cfg * 2],
              shutdown_requested :=
                (shutdown_requested s \<or> signal E (length (requests s))
                 \<or> signal E (length (requests s) + 1) \<or> signal E (length (requests s) + 2))\<rparr>))
   \<and> ((\<forall>k < max_retries cfg.
          \<exists>b. transport E (length (requests s) + k) url data = Response 429 b)
     \<longrightarrow> fst (post_with_retry E cfg url data s) = Inr None
         \<and> slept (snd (post_with_retry E cfg url data s))
             = slept s @ map (\<lambda>k. rate_limit_delay cfg * of_nat k) [1..<Suc (max_retries cfg)]
         \<and> requests (snd (post_with_retry E cfg url data s))
             = requests s @ replicate (max_retries cfg) (url, data))"
proof (intro conjI impI)
  assume a: "3 \<le> max_retries cfg
     \<and> transport E (length (requests s)) url data = Response 429 b1
     \<and> transport E (length (requests s) + 1) url data = Response 429 b2
     \<and> transport E (length (requests s) + 2) url data = Response 200 body"
  define s1 where "s1 = s\<lparr>requests := requests s @ [(url, data)],
                 shutdown_requested := (shutdown_requested s \<or> signal E (length (requests s))),
                 slept := slept s @ [rate_limit_delay cfg * of_nat (Suc 0)]\<rparr>"
  define s2 where "s2 = s1\<lparr>requests := requests s1 @ [(url, data)],
                 shutdown_requested := (shutdown_requested s1 \<or> signal E (length (requests s1))),
                 slept := slept s1 @ [rate_limit_delay cfg * of_nat (Suc (Suc 0))]\<rparr>"
  define s3 where "s3 = s2\<lparr>requests := requests s2 @ [(url, data)],
                 shutdown_requested := (shutdown_requested s2 \<or> signal E (length (requests s2)))\<rparr>"
  have o1: "attempt_once E cfg url data (Suc 0) s = Continue s1"
    unfolding s1_def using a by (intro attempt_once_429) simp
  have o2: "attempt_once E cfg url data (Suc (Suc 0)) s1 = Continue s2"
    unfolding s2_def using a by (intro attempt_once_429) (simp add: s1_def)
  have o3: "attempt_once E cfg url data (Suc (Suc (Suc 0))) s2 = Return (Inr (Some (200, body))) s3"
    unfolding s3_def using a by (intro attempt_once_200) (simp add: s2_def s1_def numeral_2_eq_2)
  have "post_with_retry E cfg url data s = post_attempts E cfg url data (Suc 0) s"
    by (simp add: post_with_retry_def)
  also have "\<dots> = post_attempts E cfg url data (Suc (Suc 0)) s1"
    using a by (intro post_attempts_continue o1) simp
  also have "\<dots> = post_attempts E cfg url data (Suc (Suc (Suc 0))) s2"
    using a by (intro post_attempts_continue o2) simp
  also have "\<dots> = (Inr (Some (200, body)), s3)"
    using a by (intro post_attempts_return o3) simp
  finally show "post_with_retry E cfg url data s =
           (Inr (Some (200, body)),
            s\<lparr>requests := requests s @ [(url, data), (url, data), (url, data)],
              slept := slept s @ [rate_limit_delay cfg * 1, rate_limit_delay cfg * 2],
              shutdown_requested :=
                (shutdown_requested s \<or> signal E (length (requests s))
                 \<or> signal E (length (requests s) + 1) \<or> signal E (length (requests s) + 2))\<rparr>)"
    by (simp add: s3_def s2_def s1_def numeral_2_eq_2)
next
  assume a: "\<forall>k < max_retries cfg.
          \<exists>b. transport E (length (requests s) + k) url data = Response 429 b"
  have "\<forall>j. Suc 0 + j \<le> max_retries cfg \<longrightarrow>
        (\<exists>b. transport E (length (requests s) + j) url data = Response 429 b)"
    using a by (simp add: less_eq_Suc_le)
  from post_attempts_all_429 [OF this]
  show "fst (post_with_retry E cfg url data s) = Inr None"
    and "slept (snd (post_with_retry E cfg url data s))
             = slept s @ map (\<lambda>k. rate_limit_delay cfg * of_nat k) [1..<Suc (max_retries cfg)]"
    and "requests (snd (post_with_retry E cfg url data s))
             = requests s @ replicate (max_retries cfg) (url, data)"
    by (simp_all add: post_with_retry_def)
qed

theorem post_with_retry_rate_limited_witness:
  "post_with_retry (quiet_env (\<lambda>n url data. if n < 2 then Response 429 [] else Response 200 ''ok''))
       default_client ''u'' None io0
     = (Inr (Some (200, ''ok'')),
        \<lparr>requests = [(''u'', None), (''u'', None), (''u'', None)], slept = [10, 20],
         shutdown_requested = False\<rparr>)
   \<and> fst (post_with_retry (quiet_env (\<lambda>n url data. Response 429 [])) default_client ''u'' None
            io0) = Inr None
   \<and> slept (snd (post_with_retry (quiet_env (\<lambda>n url data. Response 429 [])) default_client
                   ''u'' None io0)) = [10, 20, 30]"
  using post_with_retry_rate_limited
          [of default_client
              "quiet_env (\<lambda>n url data. if n < 2 then Response 429 [] else Response 200 ''ok'')"
              io0 "''u''" None "[]" "[]" "''ok''"]
        post_with_retry_rate_limited
          [of default_client "quiet_env (\<lambda>n url data. Response 429 [])" io0 "''u''" None]
  by (simp add: quiet_env_def default_client_def io0_def upt_conv_Cons)

text \<open>
  Claim C3 does not hold of the code. \<open>raise_for_status\<close> raises inside the \<open>try\<close>, and
  the \<open>HTTPError\<close> of a 404 is a \<open>RequestException\<close>: the last \<open>except\<close> clause catches
  it, sleeps and goes on to the next attempt. With the default client a transport that
  always answers 404 is asked three times, with sleeps of 3 and 6 seconds in between, and
  the result is the \<open>None\<close> that a transport which always times out gives.
\<close>

theorem post_with_retry_404_is_retried:
  "post_with_retry (quiet_env (\<lambda>n url data. Response 404 ''Not Found'')) default_client
       ''u'' None io0
     = (Inr None,
        \<lparr>requests = [(''u'', None), (''u'', None), (''u'', None)], slept = [3, 6],
         shutdown_requested = False\<rparr>)
   \<and> post_with_retry (quiet_env (\<lambda>n url data. Timeout)) default_client ''u'' None io0
     = post_with_retry (quiet_env (\<lambda>n url data. Response 404 ''Not Found'')) default_client
         ''u'' None io0"
  by (simp add: post_with_retry_def post_attempts.simps attempt_once_def quiet_env_def
        default_client_def io0_def raise_for_status_def backoff_or_give_up_def sleep_def Let_def)

subsection \<open>What the database operations leave alone\<close>

lemma sparse_update_url [simp]:
  "p_lot_url (sparse_update now st found processed errors err r) = p_lot_url r"
  by (simp add: sparse_update_def)

lemma update_progress_lots [simp]:
  "lot_details (update_progress now url st found processed errors err D) = lot_details D"
  by (simp add: update_progress_rows)

lemma update_progress_urls [simp]:
  "map p_lot_url (scraping_progress (update_progress now url st found processed errors err D))
     = map p_lot_url (scraping_progress D)"
  by (simp add: update_progress_rows comp_def if_distrib cong: if_cong)

lemma increment_processed_lots [simp]:
  "lot_details (increment_processed url D) = lot_details D"
  by (simp add: increment_processed_def)

lemma increment_processed_urls [simp]:
  "map p_lot_url (scraping_progress (increment_processed url D))
     = map p_lot_url (scraping_progress D)"
  by (simp add: increment_processed_def comp_def if_distrib cong: if_cong)

lemma insert_lot_detail_progress:
  "insert_lot_detail now url lot_id ann parsed ps msg D = Inr (b, D') \<Longrightarrow>
     scraping_progress D' = scraping_progress D"
  by (auto simp: insert_lot_detail_def execute_insert_lot_def
           split: if_splits sum.splits sqlite_error.splits)

lemma insert_lot_detail_distinct:
  "insert_lot_detail now url lot_id ann parsed ps msg D = Inr (b, D') \<Longrightarrow>
     distinct (map lot_key (lot_details D)) \<Longrightarrow> distinct (map lot_key (lot_details D'))"
  by (auto simp: insert_lot_detail_def execute_insert_lot_def
           split: if_splits sum.splits sqlite_error.splits)

lemma find_progress_None:
  "find_progress url D = None \<longleftrightarrow> url \<notin> set (map p_lot_url (scraping_progress D))"
  by (auto simp: find_progress_def find_None_iff)

lemma find_map_update:
  assumes "\<And>r. p_lot_url (g r) = p_lot_url r"
  shows "find (\<lambda>r. p_lot_url r = url) (map (\<lambda>r. if p_lot_url r = url then g r else r) rows)
           = map_option g (find (\<lambda>r. p_lot_url r = url) rows)"
  by (induction rows) (simp_all add: assms)

lemma find_progress_update:
  "find_progress url (update_progress now url st found processed errors err D)
     = map_option (sparse_update now st found processed errors err) (find_progress url D)"
  by (simp add: find_progress_def update_progress_rows find_map_update)

lemma completed_after_update:
  assumes "url \<in> set (map p_lot_url (scraping_progress D))"
  shows "\<exists>r. find_progress url
                (update_progress now url (Some ''completed'') found processed errors err D) = Some r
             \<and> status r = ''completed''"
proof -
  from assms obtain r0 where "find_progress url D = Some r0"
    using find_progress_None [of url D] by (cases "find_progress url D") auto
  then show ?thesis
    by (simp add: find_progress_update sparse_update_def)
qed

lemma find_append:
  "find P (xs @ ys) = (case find P xs of None \<Rightarrow> find P ys | Some x \<Rightarrow> Some x)"
  by (induction xs) simp_all

lemma get_or_create_progress_result:
  assumes "get_or_create_progress now url ann D = (r, D')"
  shows "find_progress url D' = Some r \<and> lot_details D' = lot_details D
     \<and> (find_progress url D \<noteq> None \<longrightarrow> D' = D)"
proof (cases "find_progress url D")
  case None
  then have "find (\<lambda>r. p_lot_url r = url) (scraping_progress D) = None"
    by (simp add: find_progress_def)
  with assms None show ?thesis
    by (auto simp: get_or_create_progress_def Let_def find_progress_def find_append)
next
  case (Some r0)
  with assms show ?thesis
    by (auto simp: get_or_create_progress_def)
qed

subsection \<open>Loading the URLs\<close>

text \<open>
  Claim C10. For every \<open>links\<close> array, \<open>load_urls\<close> returns what it returns with resume
  mode off and an empty progress store: the filter of resume mode keeps a URL that is in
  \<open>pending\<close> or is not, so every URL. The result is the list of links in its order, cut to
  the first \<open>max_urls\<close> when a positive \<open>max_urls\<close> is given.
\<close>

theorem load_urls_ignores_progress:
  "load_urls cfg store (Document (Some links))
     = load_urls (cfg\<lparr>resume := False\<rparr>) empty_db (Document (Some links))
   \<and> (max_urls cfg = None \<longrightarrow> load_urls cfg store (Document (Some links)) = Inr links)
   \<and> (max_urls cfg = Some n \<and> 0 < n \<longrightarrow>
        load_urls cfg store (Document (Some links)) = Inr (take (nat n) links))"
  by (auto simp: load_urls_def Let_def py_prefix_def split: option.splits)

theorem load_urls_ignores_progress_witness:
  "get_pending_urls first_run_db = [''u'']
   \<and> load_urls \<lparr>resume = True, max_urls = Some 2\<rparr> first_run_db
        (Document (Some [''a'', ''u'', ''b''])) = Inr [''a'', ''u'']
   \<and> load_urls \<lparr>resume = True, max_urls = None\<rparr> first_run_db
        (Document (Some [''a'', ''u'', ''b''])) = Inr [''a'', ''u'', ''b'']"
proof -
  have "get_pending_urls first_run_db = [''u'']"
    by (simp add: get_pending_urls_def first_run_db_def update_progress_def progress_updates_def
          get_or_create_progress_def find_progress_def empty_db_def Let_def)
  then show ?thesis
    using load_urls_ignores_progress
            [of "\<lparr>resume = True, max_urls = Some 2\<rparr>" first_run_db "[''a'', ''u'', ''b'']" 2,
             THEN conjunct2]
          load_urls_ignores_progress
            [of "\<lparr>resume = True, max_urls = None\<rparr>" first_run_db "[''a'', ''u'', ''b'']" 2,
             THEN conjunct2]
    by simp
qed

subsection \<open>Lots of one announcement\<close>

lemma process_lot_urls [simp]:
  "map p_lot_url (scraping_progress (db (process_lot E url ann lot_id s)))
     = map p_lot_url (scraping_progress (db s))"
  by (auto simp: process_lot_def Let_def dest: insert_lot_detail_progress
           split: prod.splits sum.splits option.splits)

lemma lot_loop_urls [simp]:
  "map p_lot_url (scraping_progress (db (lot_loop E url ann lot_ids s)))
     = map p_lot_url (scraping_progress (db s))"
  by (induction lot_ids arbitrary: s) (simp_all add: Let_def)

lemma lot_loop_shutdown:
  "shutdown_requested (io s) \<Longrightarrow> lot_loop E url ann lot_ids s = s"
  by (cases lot_ids) simp_all

lemma get_or_create_progress_urls:
  "get_or_create_progress now url ann D = (r, D') \<Longrightarrow>
     url \<in> set (map p_lot_url (scraping_progress D'))"
  using get_or_create_progress_result [of now url ann D r D'] find_progress_None [of url D']
  by auto

lemma process_url_try_completed:
  assumes page: "get_lot_ids_page E default_client url (io s) = (Inr (Some html), io')"
    and html: "html \<noteq> []"
    and row: "url \<in> set (map p_lot_url (scraping_progress (db s)))"
  shows "(\<exists>r. find_progress url (db (process_url_try E url ann s)) = Some r
              \<and> status r = ''completed'')
       \<and> (shutdown_requested io' \<longrightarrow>
            lot_details (db (process_url_try E url ann s)) = lot_details (db s))"
proof (cases "extract_lot_ids (lot_id_query E) html url = []")
  case True
  with page html show ?thesis
    by (simp add: process_url_try_def completed_after_update [OF row])
next
  case False
  define s1 where "s1 = s\<lparr>io := io',
       db := update_progress (datetime_now E io') url None
               (Some (int (length (extract_lot_ids (lot_id_query E) html url)))) None None None
               (db s),
       lots_found := lots_found s + length (extract_lot_ids (lot_id_query E) html url)\<rparr>"
  define s2 where "s2 = lot_loop E url ann (extract_lot_ids (lot_id_query E) html url) s1"
  have res: "process_url_try E url ann s
     = s2\<lparr>db := update_progress (datetime_now E (io s2)) url (Some ''completed'') None None None
                   None (db s2),
           urls_processed := urls_processed s2 + 1\<rparr>"
    using page html False by (simp add: process_url_try_def Let_def s2_def s1_def)
  have "url \<in> set (map p_lot_url (scraping_progress (db s2)))"
    using row by (simp add: s2_def s1_def)
  from completed_after_update [OF this]
  have marked: "\<exists>r. find_progress url (db (process_url_try E url ann s)) = Some r
              \<and> status r = ''completed''"
    by (simp add: res)
  have "shutdown_requested io' \<longrightarrow> s2 = s1"
    by (simp add: s2_def lot_loop_shutdown s1_def)
  then have "shutdown_requested io' \<longrightarrow>
        lot_details (db (process_url_try E url ann s)) = lot_details (db s)"
    by (auto simp: res s1_def)
  with marked show ?thesis by blast
qed

text \<open>
  Claim C7. When the announcement id can be read from the URL and the page of lot ids is
  fetched, \<open>process_url\<close> leaves the progress row of the URL with status \<open>completed\<close>,
  whatever signals arrive: also when the shutdown flag cuts the loop over the lots short.
  In particular, when the flag is already set as the loop begins, no lot is stored and the
  URL is marked \<open>completed\<close> all the same.
\<close>

theorem process_url_marks_completed:
  assumes "extract_announce_id url = Some ann" and "ann \<noteq> []"
    and "fst (get_lot_ids_page E default_client url (io s)) = Inr (Some html)"
    and "html \<noteq> []"
  shows "(\<exists>r. find_progress url (db (process_url E cfg url s)) = Some r
              \<and> status r = ''completed'')
       \<and> (shutdown_requested (snd (get_lot_ids_page E default_client url (io s))) \<longrightarrow>
            lot_details (db (process_url E cfg url s)) = lot_details (db s))"
proof -
  obtain r0 D0 where goc: "get_or_create_progress (datetime_now E (io s)) url ann (db s) = (r0, D0)"
    by (cases "get_or_create_progress (datetime_now E (io s)) url ann (db s)")
  note created = get_or_create_progress_result [OF goc]
  obtain io' where page: "get_lot_ids_page E default_client url (io s) = (Inr (Some html), io')"
    using assms(3) by (cases "get_lot_ids_page E default_client url (io s)") auto
  show ?thesis
  proof (cases "status r0 = ''completed'' \<and> resume cfg")
    case True
    then show ?thesis
      using assms(1,2) goc created by (simp add: process_url_def)
  next
    case False
    define s1 where "s1 = s\<lparr>db := update_progress (datetime_now E (io s)) url
                                   (Some ''processing'') None None None None D0\<rparr>"
    have res: "process_url E cfg url s = process_url_try E url ann s1"
      using assms(1,2) goc False by (auto simp: process_url_def s1_def)
    have page1: "get_lot_ids_page E default_client url (io s1) = (Inr (Some html), io')"
      using page by (simp add: s1_def)
    have row1: "url \<in> set (map p_lot_url (scraping_progress (db s1)))"
      using get_or_create_progress_urls [OF goc] by (simp add: s1_def)
    have "lot_details (db s1) = lot_details (db s)"
      using created by (simp add: s1_def)
    with process_url_try_completed [OF page1 assms(4) row1, of ann] show ?thesis
      by (simp add: res page)
  qed
qed

lemma example_announce_id: "extract_announce_id ''h/index/7'' = Some ''7''"
  by (simp add: extract_announce_id_def rstrip_slash_def list_index_def Let_def)

lemma example_page:
  "get_lot_ids_page (interrupted_env k) default_client ''h/index/7'' io0
     = (Inr (Some ''<html>''),
        \<lparr>requests = [(''h/index/7?tab=lots#'', None)], slept = [],
         shutdown_requested = (k = 0)\<rparr>)"
  by (simp add: get_lot_ids_page_def post_with_retry_def post_attempts.simps attempt_once_def
        interrupted_env_def default_client_def io0_def raise_for_status_def response_text_def
        Let_def)

theorem process_url_marks_completed_witness:
  "(\<exists>r. find_progress ''h/index/7''
            (db (process_url (interrupted_env 0) \<lparr>resume = True, max_urls = None\<rparr>
                   ''h/index/7'' parser0)) = Some r
        \<and> status r = ''completed'')
   \<and> lot_details (db (process_url (interrupted_env 0) \<lparr>resume = True, max_urls = None\<rparr>
                         ''h/index/7'' parser0)) = []
   \<and> (\<exists>r. find_progress ''h/index/7''
            (db (process_url (interrupted_env 1) \<lparr>resume = True, max_urls = None\<rparr>
                   ''h/index/7'' parser0)) = Some r
        \<and> status r = ''completed'')"
  using process_url_marks_completed
          [of "''h/index/7''" "''7''" "interrupted_env 0" parser0 "''<html>''"
              "\<lparr>resume = True, max_urls = None\<rparr>"]
        process_url_marks_completed
          [of "''h/index/7''" "''7''" "interrupted_env 1" parser0 "''<html>''"
              "\<lparr>resume = True, max_urls = None\<rparr>"]
  by (simp add: example_announce_id example_page parser0_def empty_db_def)

subsection \<open>Requests are only added\<close>

lemma backoff_or_give_up_requests:
  "backoff_or_give_up cfg attempt s = Continue s' \<or> backoff_or_give_up cfg attempt s = Return r s'
     \<Longrightarrow> requests s' = requests s"
  by (auto simp: backoff_or_give_up_def sleep_def split: if_splits)

lemma attempt_once_requests:
  "attempt_once E cfg url data attempt s = Continue s'
     \<or> attempt_once E cfg url data attempt s = Return r s'
     \<Longrightarrow> requests s' = requests s @ [(url, data)]"
  by (auto simp: attempt_once_def Let_def sleep_def
           dest!: backoff_or_give_up_requests [OF disjI1] backoff_or_give_up_requests [OF disjI2]
           split: outcome.splits if_splits)

lemma post_attempts_prefix:
  "prefix (requests s) (requests (snd (post_attempts E cfg url data attempt s)))"
proof (induction E cfg url data attempt s rule: post_attempts.induct)
  case (1 E cfg url data attempt s)
  show ?case
  proof (cases "max_retries cfg < attempt")
    case True
    then show ?thesis
      by (simp add: post_attempts.simps [of E cfg url data attempt s])
  next
    case False
    show ?thesis
    proof (cases "attempt_once E cfg url data attempt s")
      case (Continue s')
      from attempt_once_requests [OF disjI1, OF Continue]
      have "prefix (requests s) (requests s')" by simp
      with "1.IH" [OF False Continue] have
        "prefix (requests s) (requests (snd (post_attempts E cfg url data (Suc attempt) s')))"
        by (blast intro: prefix_order.trans)
      with False Continue show ?thesis
        by (simp add: post_attempts.simps [of E cfg url data attempt s])
    next
      case (Return r s')
      from attempt_once_requests [OF disjI2, OF Return]
      have "prefix (requests s) (requests s')" by simp
      with False Return show ?thesis
        by (simp add: post_attempts.simps [of E cfg url data attempt s])
    qed
  qed
qed

lemma post_with_retry_first_request:
  assumes "1 \<le> max_retries cfg"
  shows "prefix (requests s @ [(url, data)])
           (requests (snd (post_with_retry E cfg url data s)))"
proof (cases "attempt_once E cfg url data 1 s")
  case (Continue s')
  from attempt_once_requests [OF disjI1, OF Continue]
  have "requests s' = requests s @ [(url, data)]" .
  with post_attempts_prefix [of s' E cfg url data "Suc 1"] assms Continue show ?thesis
    by (simp add: post_with_retry_def post_attempts.simps [of E cfg url data "Suc 0" s])
next
  case (Return r s')
  from attempt_once_requests [OF disjI2, OF Return]
  have "requests s' = requests s @ [(url, data)]" .
  with assms Return show ?thesis
    by (simp add: post_with_retry_def post_attempts.simps [of E cfg url data "Suc 0" s])
qed

lemma get_lot_detail_prefix:
  "prefix (requests s) (requests (snd (get_lot_detail E cfg ann lot_id s)))"
  using post_attempts_prefix [of s E cfg "AJAX_LOAD_LOT_URL ann" "Some [(''id'', lot_id)]" 1]
  by (auto simp: get_lot_detail_def post_with_retry_def Let_def split: prod.splits sum.splits)

lemma get_lot_ids_page_first_request:
  "prefix (requests s @ [(url @ ''?tab=lots#'', None)])
     (requests (snd (get_lot_ids_page E default_client url s)))"
  using post_with_retry_first_request [of default_client s "url @ ''?tab=lots#''" None E]
  by (auto simp: get_lot_ids_page_def Let_def default_client_def split: prod.splits sum.splits)

lemma process_lot_io:
  "io (process_lot E url ann lot_id s) = snd (get_lot_detail E default_client ann lot_id (io s))"
  by (auto simp: process_lot_def Let_def split: prod.splits sum.splits option.splits)

lemma process_lot_prefix:
  "prefix (requests (io s)) (requests (io (process_lot E url ann lot_id s)))"
  by (simp add: process_lot_io get_lot_detail_prefix)

lemma lot_loop_prefix:
  "prefix (requests (io s)) (requests (io (lot_loop E url ann lot_ids s)))"
proof (induction lot_ids arbitrary: s)
  case Nil
  show ?case by simp
next
  case (Cons lot_id lot_ids)
  define s1 where "s1 = process_lot E url ann lot_id s"
  define s2 where "s2 = s1\<lparr>io := sleep REQUEST_DELAY (io s1)\<rparr>"
  have "prefix (requests (io s)) (requests (io s2))"
    using process_lot_prefix [of s E url ann lot_id] by (simp add: s2_def s1_def sleep_def)
  with Cons.IH [of s2] have "prefix (requests (io s)) (requests (io (lot_loop E url ann lot_ids s2)))"
    by (blast intro: prefix_order.trans)
  then show ?case
    by (simp add: Let_def s2_def s1_def)
qed

lemma process_url_try_first_request:
  "prefix (requests (io s) @ [(url @ ''?tab=lots#'', None)])
     (requests (io (process_url_try E url ann s)))"
proof -
  obtain res io' where page: "get_lot_ids_page E default_client url (io s) = (res, io')"
    by (cases "get_lot_ids_page E default_client url (io s)")
  from get_lot_ids_page_first_request [of "io s" url E] page
  have first: "prefix (requests (io s) @ [(url @ ''?tab=lots#'', None)]) (requests io')"
    by simp
  have loop: "prefix (requests io') (requests (io (lot_loop E url ann lot_ids s1)))"
    if "io s1 = io'" for lot_ids s1
    using lot_loop_prefix [of s1 E url ann lot_ids] that by simp
  show ?thesis
    using page first
    by (auto simp: process_url_try_def Let_def split: sum.splits option.splits
             intro: prefix_order.trans [OF first loop])
qed

subsection \<open>The unique key of the lot table\<close>

lemma process_lot_distinct:
  "distinct (map lot_key (lot_details (db s))) \<Longrightarrow>
     distinct (map lot_key (lot_details (db (process_lot E url ann lot_id s))))"
  by (auto simp: process_lot_def Let_def dest: insert_lot_detail_distinct
           split: prod.splits sum.splits option.splits)

lemma lot_loop_distinct:
  "distinct (map lot_key (lot_details (db s))) \<Longrightarrow>
     distinct (map lot_key (lot_details (db (lot_loop E url ann lot_ids s))))"
  by (induction lot_ids arbitrary: s) (simp_all add: Let_def process_lot_distinct)

lemma process_url_try_distinct:
  "distinct (map lot_key (lot_details (db s))) \<Longrightarrow>
     distinct (map lot_key (lot_details (db (process_url_try E url ann s))))"
  by (auto simp: process_url_try_def Let_def lot_loop_distinct
           split: prod.splits sum.splits option.splits)

lemma process_url_distinct:
  assumes "distinct (map lot_key (lot_details (db s)))"
  shows "distinct (map lot_key (lot_details (db (process_url E cfg url s))))"
proof -
  have "distinct (map lot_key (lot_details D'))"
    if "get_or_create_progress now url ann (db s) = (r, D')" for now ann r D'
    using get_or_create_progress_result [OF that] assms by simp
  then show ?thesis
    using assms
    by (auto simp: process_url_def Let_def process_url_try_distinct
             split: option.splits prod.splits)
qed

lemma url_loop_distinct:
  "distinct (map lot_key (lot_details (db s))) \<Longrightarrow>
     distinct (map lot_key (lot_details (db (url_loop E cfg urls s))))"
  by (induction urls arbitrary: s) (simp_all add: process_url_distinct)

subsection \<open>Resuming a run\<close>

lemma status_after_update:
  assumes "url \<in> set (map p_lot_url (scraping_progress D))" and "st \<noteq> []"
  shows "\<exists>r. find_progress url
                (update_progress now url (Some st) found processed errors err D) = Some r
             \<and> status r = st"
proof -
  from assms(1) obtain r0 where "find_progress url D = Some r0"
    using find_progress_None [of url D] by (cases "find_progress url D") auto
  then show ?thesis
    using assms(2) by (simp add: find_progress_update sparse_update_def)
qed

lemma process_url_try_status:
  assumes row: "url \<in> set (map p_lot_url (scraping_progress (db s)))"
  shows "\<exists>r. find_progress url (db (process_url_try E url ann s)) = Some r
             \<and> (status r = ''completed'' \<or> status r = ''failed'')"
proof -
  have upd: "\<exists>r. find_progress url
                (update_progress now url (Some st) found processed errors err D) = Some r
             \<and> (status r = ''completed'' \<or> status r = ''failed'')"
    if "url \<in> set (map p_lot_url (scraping_progress D))"
      and "st = ''completed'' \<or> st = ''failed''"
    for now st found processed errors err D
    using status_after_update [OF that(1), of st now found processed errors err] that(2)
    by auto
  show ?thesis
    using row
    by (auto simp: process_url_try_def Let_def simp del: set_map
             split: prod.splits sum.splits option.splits intro!: upd)
qed

subsection \<open>One URL\<close>

lemma process_url_skip:
  assumes "resume cfg" and "find_progress url (db s) = Some r" and "status r = ''completed''"
  shows "process_url E cfg url s = s"
proof -
  from assms(2) have "get_or_create_progress now url ann (db s) = (r, db s)" for now ann
    by (simp add: get_or_create_progress_def)
  with assms show ?thesis
    by (simp add: process_url_def split: option.splits)
qed

lemma process_url_reprocess:
  assumes "find_progress url (db s) = Some r" and "status r \<noteq> ''completed''"
    and "extract_announce_id url = Some ann" and "ann \<noteq> []"
  shows "prefix (requests (io s) @ [(url @ ''?tab=lots#'', None)])
           (requests (io (process_url E cfg url s)))"
    and "\<exists>r'. find_progress url (db (process_url E cfg url s)) = Some r'
              \<and> (status r' = ''completed'' \<or> status r' = ''failed'')"
proof -
  from assms(1) have goc: "get_or_create_progress now url ann (db s) = (r, db s)" for now
    by (simp add: get_or_create_progress_def)
  define s1 where "s1 = s\<lparr>db := update_progress (datetime_now E (io s)) url
                                 (Some ''processing'') None None None None (db s)\<rparr>"
  have res: "process_url E cfg url s = process_url_try E url ann s1"
    using assms goc by (auto simp: process_url_def s1_def)
  have row: "url \<in> set (map p_lot_url (scraping_progress (db s1)))"
    using assms(1) find_progress_None [of url "db s"] by (simp add: s1_def)
  show "prefix (requests (io s) @ [(url @ ''?tab=lots#'', None)])
          (requests (io (process_url E cfg url s)))"
    using process_url_try_first_request [of s1 url E ann] by (simp add: res s1_def)
  show "\<exists>r'. find_progress url (db (process_url E cfg url s)) = Some r'
              \<and> (status r' = ''completed'' \<or> status r' = ''failed'')"
    using process_url_try_status [OF row] by (simp add: res)
qed

subsection \<open>The requests that one URL adds\<close>

lemma post_attempts_requests:
  "\<exists>k. requests (snd (post_attempts E cfg url data attempt s))
         = requests s @ replicate k (url, data)"
proof (induction E cfg url data attempt s rule: post_attempts.induct)
  case (1 E cfg url data attempt s)
  show ?case
  proof (cases "max_retries cfg < attempt")
    case True
    then show ?thesis
      by (simp add: post_attempts.simps [of E cfg url data attempt s])
  next
    case False
    show ?thesis
    proof (cases "attempt_once E cfg url data attempt s")
      case (Continue s')
      from attempt_once_requests [OF disjI1, OF Continue]
      have r: "requests s' = requests s @ [(url, data)]" .
      from "1.IH" [OF False Continue] obtain k where
        "requests (snd (post_attempts E cfg url data (Suc attempt) s'))
           = requests s' @ replicate k (url, data)" ..
      with r have "requests (snd (post_attempts E cfg url data (Suc attempt) s'))
           = requests s @ replicate (Suc k) (url, data)"
        by simp
      with False Continue show ?thesis
        by (intro exI [of _ "Suc k"])
           (simp add: post_attempts.simps [of E cfg url data attempt s])
    next
      case (Return r s')
      from attempt_once_requests [OF disjI2, OF Return]
      have "requests s' = requests s @ replicate (Suc 0) (url, data)" by simp
      with False Return show ?thesis
        by (intro exI [of _ "Suc 0"])
           (simp add: post_attempts.simps [of E cfg url data attempt s])
    qed
  qed
qed

lemma get_lot_detail_requests:
  "\<exists>new. requests (snd (get_lot_detail E cfg ann lot_id s)) = requests s @ new
         \<and> (\<forall>q \<in> set new. snd q \<noteq> None)"
proof -
  from post_attempts_requests [of E cfg "AJAX_LOAD_LOT_URL ann" "Some [(''id'', lot_id)]" 1 s]
  obtain k where "requests (snd (post_attempts E cfg (AJAX_LOAD_LOT_URL ann)
                                   (Some [(''id'', lot_id)]) 1 s))
          = requests s @ replicate k (AJAX_LOAD_LOT_URL ann, Some [(''id'', lot_id)])" ..
  then have "requests (snd (get_lot_detail E cfg ann lot_id s))
          = requests s @ replicate k (AJAX_LOAD_LOT_URL ann, Some [(''id'', lot_id)])"
    by (auto simp: get_lot_detail_def post_with_retry_def Let_def split: prod.splits sum.splits)
  then show ?thesis
    by (intro exI [of _ "replicate k (AJAX_LOAD_LOT_URL ann, Some [(''id'', lot_id)])"]) auto
qed

lemma get_lot_ids_page_requests:
  "\<exists>new. requests (snd (get_lot_ids_page E cfg url s)) = requests s @ new
         \<and> (\<forall>q \<in> set new. q = (url @ ''?tab=lots#'', None))"
proof -
  from post_attempts_requests [of E cfg "url @ ''?tab=lots#''" None 1 s]
  obtain k where "requests (snd (post_attempts E cfg (url @ ''?tab=lots#'') None 1 s))
          = requests s @ replicate k (url @ ''?tab=lots#'', None)" ..
  then have "requests (snd (get_lot_ids_page E cfg url s))
          = requests s @ replicate k (url @ ''?tab=lots#'', None)"
    by (auto simp: get_lot_ids_page_def post_with_retry_def Let_def split: prod.splits sum.splits)
  then show ?thesis
    by (intro exI [of _ "replicate k (url @ ''?tab=lots#'', None)"]) auto
qed

lemma lot_loop_requests:
  "\<exists>new. requests (io (lot_loop E url ann lot_ids s)) = requests (io s) @ new
         \<and> (\<forall>q \<in> set new. snd q \<noteq> None)"
proof (induction lot_ids arbitrary: s)
  case Nil
  show ?case by simp
next
  case (Cons lot_id lot_ids)
  show ?case
  proof (cases "shutdown_requested (io s)")
    case True
    then show ?thesis by simp
  next
    case False
    define s1 where "s1 = process_lot E url ann lot_id s"
    define s2 where "s2 = s1\<lparr>io := sleep REQUEST_DELAY (io s1)\<rparr>"
    from get_lot_detail_requests [of E default_client ann lot_id "io s"] obtain new1 where
      n1: "requests (io s2) = requests (io s) @ new1" "\<forall>q \<in> set new1. snd q \<noteq> None"
      by (auto simp: s2_def s1_def process_lot_io sleep_def)
    from Cons.IH [of s2] obtain new2 where
      n2: "requests (io (lot_loop E url ann lot_ids s2)) = requests (io s2) @ new2"
        "\<forall>q \<in> set new2. snd q \<noteq> None"
      by blast
    have "lot_loop E url ann (lot_id # lot_ids) s = lot_loop E url ann lot_ids s2"
      using False by (simp add: Let_def s2_def s1_def)
    with n1 n2 show ?thesis
      by (intro exI [of _ "new1 @ new2"]) auto
  qed
qed

lemma process_url_try_requests:
  "\<exists>new. requests (io (process_url_try E url ann s)) = requests (io s) @ new
         \<and> (\<forall>q \<in> set new. q = (url @ ''?tab=lots#'', None) \<or> snd q \<noteq> None)"
proof -
  define ok :: "string \<times> form_data \<Rightarrow> bool"
    where "ok = (\<lambda>q. q = (url @ ''?tab=lots#'', None) \<or> snd q \<noteq> None)"
  obtain res io' where page: "get_lot_ids_page E default_client url (io s) = (res, io')"
    by (cases "get_lot_ids_page E default_client url (io s)")
  from get_lot_ids_page_requests [of E default_client url "io s"] page obtain new1 where
    n1: "requests io' = requests (io s) @ new1" "\<forall>q \<in> set new1. ok q"
    by (auto simp: ok_def)
  have loop: "\<exists>new. requests (io (lot_loop E url ann lot_ids s1)) = requests (io s) @ new
         \<and> (\<forall>q \<in> set new. ok q)"
    if "io s1 = io'" for lot_ids s1
  proof -
    from lot_loop_requests [of E url ann lot_ids s1] that obtain new2 where
      "requests (io (lot_loop E url ann lot_ids s1)) = requests io' @ new2"
      "\<forall>q \<in> set new2. ok q"
      by (auto simp: ok_def)
    with n1 show ?thesis
      by (intro exI [of _ "new1 @ new2"]) auto
  qed
  have stay: "\<exists>new. requests io' = requests (io s) @ new \<and> (\<forall>q \<in> set new. ok q)"
    using n1 by (intro exI [of _ new1]) auto
  have "\<exists>new. requests (io (process_url_try E url ann s)) = requests (io s) @ new
         \<and> (\<forall>q \<in> set new. ok q)"
    using page stay
    by (auto simp: process_url_try_def Let_def split: sum.splits option.splits intro!: loop)
  then show ?thesis
    by (simp add: ok_def)
qed

lemma process_url_requests:
  "\<exists>new. requests (io (process_url E cfg url s)) = requests (io s) @ new
         \<and> (\<forall>q \<in> set new. q = (url @ ''?tab=lots#'', None) \<or> snd q \<noteq> None)"
proof -
  define ok :: "string \<times> form_data \<Rightarrow> bool"
    where "ok = (\<lambda>q. q = (url @ ''?tab=lots#'', None) \<or> snd q \<noteq> None)"
  have "\<exists>new. requests (io (process_url_try E url ann s1)) = requests (io s) @ new
         \<and> (\<forall>q \<in> set new. ok q)"
    if "io s1 = io s" for ann s1
    using process_url_try_requests [of E url ann s1] that by (simp add: ok_def)
  then have "\<exists>new. requests (io (process_url E cfg url s)) = requests (io s) @ new
         \<and> (\<forall>q \<in> set new. ok q)"
    by (auto simp: process_url_def Let_def split: option.splits prod.splits)
  then show ?thesis
    by (simp add: ok_def)
qed


subsection \<open>The records of the other URLs\<close>

lemma find_map_other:
  assumes "\<And>r. p_lot_url (g r) = p_lot_url r" and "u \<noteq> v"
  shows "find (\<lambda>r. p_lot_url r = u) (map (\<lambda>r. if p_lot_url r = v then g r else r) rows)
           = find (\<lambda>r. p_lot_url r = u) rows"
  using assms by (induction rows) auto

lemma url_records_update_progress:
  "u \<noteq> v \<Longrightarrow> url_records u (update_progress now v st found processed errors err D)
     = url_records u D"
  by (simp add: url_records_def find_progress_def update_progress_rows find_map_other)

lemma url_records_increment_processed:
  "u \<noteq> v \<Longrightarrow> url_records u (increment_processed v D) = url_records u D"
  by (simp add: url_records_def find_progress_def increment_processed_def find_map_other)

lemma url_records_get_or_create:
  assumes "u \<noteq> v" and "get_or_create_progress now v ann D = (r, D')"
  shows "url_records u D' = url_records u D"
proof (cases "find_progress v D")
  case None
  with assms show ?thesis
    by (auto simp: url_records_def get_or_create_progress_def Let_def find_progress_def
                   find_append
             split: option.splits)
next
  case (Some r0)
  with assms show ?thesis
    by (auto simp: get_or_create_progress_def)
qed

lemma url_records_insert:
  assumes "u \<noteq> v" and "insert_lot_detail now v lot_id ann parsed ps msg D = Inr (b, D')"
  shows "url_records u D' = url_records u D"
  using assms
  by (auto simp: url_records_def find_progress_def insert_lot_detail_def execute_insert_lot_def
                 lot_row_def
           split: if_splits sum.splits sqlite_error.splits)

lemma url_records_process_lot:
  "u \<noteq> v \<Longrightarrow> url_records u (db (process_lot E v ann lot_id s)) = url_records u (db s)"
  by (auto simp: process_lot_def Let_def url_records_increment_processed
           dest: url_records_insert
           split: prod.splits sum.splits option.splits)

lemma url_records_lot_loop:
  "u \<noteq> v \<Longrightarrow> url_records u (db (lot_loop E v ann lot_ids s)) = url_records u (db s)"
  by (induction lot_ids arbitrary: s) (simp_all add: Let_def url_records_process_lot)

lemma url_records_process_url_try:
  "u \<noteq> v \<Longrightarrow> url_records u (db (process_url_try E v ann s)) = url_records u (db s)"
  by (auto simp: process_url_try_def Let_def url_records_update_progress url_records_lot_loop
           split: prod.splits sum.splits option.splits)

lemma url_records_process_url:
  assumes "u \<noteq> v"
  shows "url_records u (db (process_url E cfg v s)) = url_records u (db s)"
proof -
  have "url_records u D' = url_records u (db s)"
    if "get_or_create_progress now v ann (db s) = (r, D')" for now ann r D'
    using url_records_get_or_create [OF assms that] .
  then show ?thesis
    using assms
    by (auto simp: process_url_def Let_def url_records_process_url_try
                   url_records_update_progress
             split: option.splits prod.splits)
qed

subsection \<open>A row that is completed or failed stays so\<close>

lemma process_url_settled:
  assumes "find_progress u (db s) = Some r" and "status r = ''completed'' \<or> status r = ''failed''"
  shows "\<exists>r'. find_progress u (db (process_url E cfg v s)) = Some r'
              \<and> (status r' = ''completed'' \<or> status r' = ''failed'')"
proof (cases "u = v")
  case False
  from url_records_process_url [OF False, of E cfg s] assms show ?thesis
    by (simp add: url_records_def)
next
  case True
  from assms(1) have goc: "get_or_create_progress now u ann (db s) = (r, db s)" for now ann
    by (simp add: get_or_create_progress_def)
  have row: "u \<in> set (map p_lot_url (scraping_progress D))"
    if "find_progress u D \<noteq> None" for D
    using that find_progress_None [of u D] by auto
  have "\<exists>r'. find_progress u (db (process_url_try E u ann s1)) = Some r'
              \<and> (status r' = ''completed'' \<or> status r' = ''failed'')"
    if "s1 = s\<lparr>db := update_progress now u st None None None None (db s)\<rparr>" for ann s1 now st
  proof -
    have "u \<in> set (map p_lot_url (scraping_progress (db s1)))"
      using row [of "db s"] assms(1) that by simp
    from process_url_try_status [OF this] show ?thesis .
  qed
  with assms goc True show ?thesis
    by (auto simp: process_url_def split: option.splits)
qed

subsection \<open>The loop over the URLs\<close>

lemma url_loop_shutdown:
  "shutdown_requested (io s) \<Longrightarrow> url_loop E cfg urls s = s"
  by (cases urls) simp_all

lemma url_loop_append:
  "url_loop E cfg (xs @ ys) s = url_loop E cfg ys (url_loop E cfg xs s)"
  by (induction xs arbitrary: s) (simp_all add: url_loop_shutdown)

lemma url_loop_requests:
  "\<exists>new. requests (io (url_loop E cfg urls s)) = requests (io s) @ new"
proof (induction urls arbitrary: s)
  case Nil
  show ?case by simp
next
  case (Cons v urls)
  from process_url_requests [of E cfg v s] obtain new1 where
    "requests (io (process_url E cfg v s)) = requests (io s) @ new1" by blast
  moreover from Cons.IH [of "process_url E cfg v s"] obtain new2 where
    "requests (io (url_loop E cfg urls (process_url E cfg v s)))
       = requests (io (process_url E cfg v s)) @ new2" by blast
  ultimately show ?case
    by (cases "shutdown_requested (io s)") simp_all
qed

lemma url_loop_other:
  "u \<notin> set urls \<Longrightarrow> url_records u (db (url_loop E cfg urls s)) = url_records u (db s)"
  by (induction urls arbitrary: s) (auto simp: url_records_process_url)

lemma url_loop_settled:
  assumes "find_progress u (db s) = Some r" and "status r = ''completed'' \<or> status r = ''failed''"
  shows "\<exists>r'. find_progress u (db (url_loop E cfg urls s)) = Some r'
              \<and> (status r' = ''completed'' \<or> status r' = ''failed'')"
  using assms
proof (induction urls arbitrary: s r)
  case Nil
  then show ?case by simp
next
  case (Cons v urls)
  show ?case
  proof (cases "shutdown_requested (io s)")
    case True
    with Cons.prems show ?thesis by simp
  next
    case False
    from process_url_settled [OF Cons.prems, of E cfg v] obtain r1 where
      "find_progress u (db (process_url E cfg v s)) = Some r1"
      "status r1 = ''completed'' \<or> status r1 = ''failed''"
      by blast
    from Cons.IH [OF this] False show ?thesis by simp
  qed
qed

lemma url_loop_skips:
  assumes "resume cfg" and "find_progress u (db s) = Some r" and "status r = ''completed''"
  shows "url_records u (db (url_loop E cfg urls s)) = url_records u (db s)
       \<and> (\<exists>new. requests (io (url_loop E cfg urls s)) = requests (io s) @ new
                 \<and> (u @ ''?tab=lots#'', None) \<notin> set new)"
  using assms(2)
proof (induction urls arbitrary: s)
  case Nil
  then show ?case by simp
next
  case (Cons v urls)
  show ?case
  proof (cases "shutdown_requested (io s)")
    case True
    then show ?thesis by simp
  next
    case False
    define s1 where "s1 = process_url E cfg v s"
    have rec: "url_records u (db s1) = url_records u (db s)"
      and req: "\<exists>new. requests (io s1) = requests (io s) @ new
                     \<and> (u @ ''?tab=lots#'', None) \<notin> set new"
    proof -
      show "url_records u (db s1) = url_records u (db s)"
      proof (cases "u = v")
        case True
        with process_url_skip [OF assms(1) Cons.prems assms(3), of E] show ?thesis
          by (simp add: s1_def)
      next
        case False
        then show ?thesis
          by (simp add: s1_def url_records_process_url)
      qed
      show "\<exists>new. requests (io s1) = requests (io s) @ new
                     \<and> (u @ ''?tab=lots#'', None) \<notin> set new"
      proof (cases "u = v")
        case True
        with process_url_skip [OF assms(1) Cons.prems assms(3), of E] show ?thesis
          by (simp add: s1_def)
      next
        case False
        from process_url_requests [of E cfg v s] obtain new where
          "requests (io s1) = requests (io s) @ new"
          "\<forall>q \<in> set new. q = (v @ ''?tab=lots#'', None) \<or> snd q \<noteq> None"
          by (auto simp: s1_def)
        with False show ?thesis
          by (intro exI [of _ new]) auto
      qed
    qed
    from rec Cons.prems have "find_progress u (db s1) = Some r"
      by (simp add: url_records_def)
    from Cons.IH [OF this] req rec False show ?thesis
      by (auto simp: s1_def)
  qed
qed


lemma url_loop_reprocesses:
  assumes "find_progress u (db s) = Some r" and "status r \<noteq> ''completed''"
    and "extract_announce_id u = Some ann" and "ann \<noteq> []"
    and "u \<notin> set pre" and "\<not> shutdown_requested (io (url_loop E cfg pre s))"
  shows "(\<exists>new. requests (io (url_loop E cfg (pre @ u # rest) s)) = requests (io s) @ new
               \<and> (u @ ''?tab=lots#'', None) \<in> set new)
       \<and> (\<exists>r'. find_progress u (db (url_loop E cfg (pre @ u # rest) s)) = Some r'
               \<and> (status r' = ''completed'' \<or> status r' = ''failed''))"
proof -
  define s1 where "s1 = url_loop E cfg pre s"
  define s2 where "s2 = process_url E cfg u s1"
  have whole: "url_loop E cfg (pre @ u # rest) s = url_loop E cfg rest s2"
    using assms(6) by (simp add: url_loop_append s2_def s1_def)
  from url_loop_other [OF assms(5), of E cfg s] assms(1)
  have row1: "find_progress u (db s1) = Some r"
    by (simp add: url_records_def s1_def)
  from url_loop_requests [of E cfg pre s] obtain n1 where
    n1: "requests (io s1) = requests (io s) @ n1"
    by (auto simp: s1_def)
  from process_url_reprocess(1) [OF row1 assms(2,3,4), of E cfg] obtain n2 where
    n2: "requests (io s2) = requests (io s1) @ [(u @ ''?tab=lots#'', None)] @ n2"
    by (auto simp: prefix_def s2_def)
  from url_loop_requests [of E cfg rest s2] obtain n3 where
    n3: "requests (io (url_loop E cfg rest s2)) = requests (io s2) @ n3"
    by blast
  have "requests (io (url_loop E cfg (pre @ u # rest) s))
          = requests (io s) @ (n1 @ [(u @ ''?tab=lots#'', None)] @ n2 @ n3)"
    by (simp add: whole n1 n2 n3)
  then have sent: "\<exists>new. requests (io (url_loop E cfg (pre @ u # rest) s)) = requests (io s) @ new
               \<and> (u @ ''?tab=lots#'', None) \<in> set new"
    by (intro exI [of _ "n1 @ [(u @ ''?tab=lots#'', None)] @ n2 @ n3"]) simp
  from process_url_reprocess(2) [OF row1 assms(2,3,4), of E cfg] obtain r2 where
    "find_progress u (db s2) = Some r2" "status r2 = ''completed'' \<or> status r2 = ''failed''"
    by (auto simp: s2_def)
  from url_loop_settled [OF this, of E cfg rest] whole sent show ?thesis
    by simp
qed

lemma run_url_loop:
  "run E cfg input s = Inr s' \<Longrightarrow>
     \<exists>urls. load_urls cfg (db s) input = Inr urls \<and> s' = url_loop E cfg urls s"
  by (auto simp: run_def split: sum.splits if_splits)

text \<open>
  Claim C2. In resume mode, on a store whose lot table obeys its unique key (every store a
  run can leave), for every list of URLs. A URL whose row is \<open>completed\<close> is skipped:
  \<open>process_url\<close> returns the state as it is, and over the whole run its progress row and
  its lot rows stay as they were and no request for its page is sent, whatever the other
  URLs do. A URL whose row is \<open>pending\<close> or \<open>failed\<close> (and whose announcement id can be
  read) is processed again: \<open>process_url\<close> sends the request for its page and leaves the
  row \<open>completed\<close> or \<open>failed\<close>, and so does the run as soon as its loop reaches the URL
  without a shutdown request. Neither one URL nor a run leaves two lot rows with the same
  \<open>(lot_url, data_lot_id)\<close>, and a run on a document of links returns.
\<close>

theorem resume_mode_rerun:
  assumes "resume cfg" and "distinct (map lot_key (lot_details (db s)))"
  shows "(find_progress url (db s) = Some r \<and> status r = ''completed''
            \<longrightarrow> process_url E cfg url s = s)
    \<and> (find_progress url (db s) = Some r \<and> (status r = ''pending'' \<or> status r = ''failed'')
          \<and> extract_announce_id url = Some ann \<and> ann \<noteq> []
            \<longrightarrow> prefix (requests (io s) @ [(url @ ''?tab=lots#'', None)])
                       (requests (io (process_url E cfg url s)))
                \<and> (\<exists>r'. find_progress url (db (process_url E cfg url s)) = Some r'
                          \<and> (status r' = ''completed'' \<or> status r' = ''failed'')))
    \<and> distinct (map lot_key (lot_details (db (process_url E cfg url s))))
    \<and> (\<exists>s''. run E cfg (Document links) s = Inr s'')
    \<and> (run E cfg input s = Inr s' \<longrightarrow>
          distinct (map lot_key (lot_details (db s')))
          \<and> (find_progress url (db s) = Some r \<and> status r = ''completed''
               \<longrightarrow> url_records url (db s') = url_records url (db s)
                   \<and> (\<exists>new. requests (io s') = requests (io s) @ new
                             \<and> (url @ ''?tab=lots#'', None) \<notin> set new))
          \<and> (find_progress url (db s) = Some r
                \<and> (status r = ''pending'' \<or> status r = ''failed'')
                \<and> extract_announce_id url = Some ann \<and> ann \<noteq> []
                \<and> load_urls cfg (db s) input = Inr (pre @ url # rest) \<and> url \<notin> set pre
                \<and> \<not> shutdown_requested (io (url_loop E cfg pre s))
               \<longrightarrow> (\<exists>new. requests (io s') = requests (io s) @ new
                             \<and> (url @ ''?tab=lots#'', None) \<in> set new)
                   \<and> (\<exists>r'. find_progress url (db s') = Some r'
                             \<and> (status r' = ''completed'' \<or> status r' = ''failed''))))"
proof (intro conjI impI)
  assume "find_progress url (db s) = Some r \<and> status r = ''completed''"
  then show "process_url E cfg url s = s"
    using process_url_skip [OF assms(1), of url s r E] by simp
next
  assume a: "find_progress url (db s) = Some r \<and> (status r = ''pending'' \<or> status r = ''failed'')
          \<and> extract_announce_id url = Some ann \<and> ann \<noteq> []"
  then have ne: "status r \<noteq> ''completed''" by auto
  from a process_url_reprocess(1) [OF _ ne, of url s ann E cfg]
  show "prefix (requests (io s) @ [(url @ ''?tab=lots#'', None)])
          (requests (io (process_url E cfg url s)))"
    by simp
  from a process_url_reprocess(2) [OF _ ne, of url s ann E cfg]
  show "\<exists>r'. find_progress url (db (process_url E cfg url s)) = Some r'
              \<and> (status r' = ''completed'' \<or> status r' = ''failed'')"
    by simp
next
  show "distinct (map lot_key (lot_details (db (process_url E cfg url s))))"
    by (rule process_url_distinct [OF assms(2)])
next
  show "\<exists>s''. run E cfg (Document links) s = Inr s''"
    by (simp add: run_def load_urls_def Let_def split: option.splits)
next
  assume "run E cfg input s = Inr s'"
  from run_url_loop [OF this] obtain urls where
    "s' = url_loop E cfg urls s" by blast
  then show "distinct (map lot_key (lot_details (db s')))"
    using url_loop_distinct [OF assms(2)] by simp
next
  assume "run E cfg input s = Inr s'"
    and a: "find_progress url (db s) = Some r \<and> status r = ''completed''"
  from run_url_loop [OF this(1)] obtain urls where
    s': "s' = url_loop E cfg urls s" by blast
  from a url_loop_skips [OF assms(1), of url s r E urls]
  show "url_records url (db s') = url_records url (db s)"
    and "\<exists>new. requests (io s') = requests (io s) @ new
             \<and> (url @ ''?tab=lots#'', None) \<notin> set new"
    by (simp_all add: s')
next
  assume "run E cfg input s = Inr s'"
    and a: "find_progress url (db s) = Some r
                \<and> (status r = ''pending'' \<or> status r = ''failed'')
                \<and> extract_announce_id url = Some ann \<and> ann \<noteq> []
                \<and> load_urls cfg (db s) input = Inr (pre @ url # rest) \<and> url \<notin> set pre
                \<and> \<not> shutdown_requested (io (url_loop E cfg pre s))"
  from run_url_loop [OF this(1)] a have
    s': "s' = url_loop E cfg (pre @ url # rest) s" by auto
  from a have ne: "status r \<noteq> ''completed''" by auto
  from a url_loop_reprocesses [OF _ ne, of url s ann pre E cfg rest]
  show "\<exists>new. requests (io s') = requests (io s) @ new
             \<and> (url @ ''?tab=lots#'', None) \<in> set new"
    and "\<exists>r'. find_progress url (db s') = Some r'
             \<and> (status r' = ''completed'' \<or> status r' = ''failed'')"
    by (simp_all add: s')
qed

lemma earlier_runs_value:
  "earlier_runs =
     \<lparr>io = io0,
      db = \<lparr>lot_details =
              [lot_row 2 ''a/index/1'' ''1'' ''1'' parsed_all ''success'' None,
               lot_row 3 ''a/index/1'' ''2'' ''1'' parsed_all ''success'' None,
               lot_row 5 ''h/index/7'' ''1'' ''7'' parsed_all ''success'' None],
            scraping_progress =
              [\<lparr>p_lot_url = ''a/index/1'', p_announce_id = ''1'', status = ''completed'',
                lot_ids_found = 2, lot_ids_processed = 2, started_at = Some 0,
                completed_at = Some 3, error_count = 0, last_error = None\<rparr>,
               \<lparr>p_lot_url = ''h/index/7'', p_announce_id = ''7'', status = ''failed'',
                lot_ids_found = 2, lot_ids_processed = 1, started_at = Some 5,
                completed_at = Some 5, error_count = 0,
                last_error = Some ''Failed to fetch lot IDs page''\<rparr>]\<rparr>,
      urls_processed = 0, lots_found = 0, lots_saved = 0, lots_failed = 0\<rparr>"
  by code_simp

lemma earlier_runs_resumed:
  "map lot_key
     (lot_details (db (url_loop (interrupted_env 99) \<lparr>resume = True, max_urls = None\<rparr>
                         [''a/index/1'', ''h/index/7''] earlier_runs)))
     = [(''a/index/1'', ''1''), (''a/index/1'', ''2''), (''h/index/7'', ''1''),
        (''h/index/7'', ''2'')]"
  by code_simp

lemma earlier_runs_first_url:
  "\<not> shutdown_requested
       (io (url_loop (interrupted_env 99) \<lparr>resume = True, max_urls = None\<rparr> [''a/index/1'']
              earlier_runs))"
  by code_simp

theorem resume_mode_rerun_witness:
  "run (interrupted_env 99) \<lparr>resume = True, max_urls = None\<rparr>
       (Document (Some [''a/index/1'', ''h/index/7''])) earlier_runs
     = Inr (url_loop (interrupted_env 99) \<lparr>resume = True, max_urls = None\<rparr>
              [''a/index/1'', ''h/index/7''] earlier_runs)
   \<and> url_records ''a/index/1''
        (db (url_loop (interrupted_env 99) \<lparr>resume = True, max_urls = None\<rparr>
               [''a/index/1'', ''h/index/7''] earlier_runs))
       = url_records ''a/index/1'' (db earlier_runs)
   \<and> (''a/index/1?tab=lots#'', None)
        \<notin> set (requests (io (url_loop (interrupted_env 99) \<lparr>resume = True, max_urls = None\<rparr>
                                [''a/index/1'', ''h/index/7''] earlier_runs)))
   \<and> (''h/index/7?tab=lots#'', None)
        \<in> set (requests (io (url_loop (interrupted_env 99) \<lparr>resume = True, max_urls = None\<rparr>
                                [''a/index/1'', ''h/index/7''] earlier_runs)))
   \<and> map lot_key
        (lot_details (db (url_loop (interrupted_env 99) \<lparr>resume = True, max_urls = None\<rparr>
                            [''a/index/1'', ''h/index/7''] earlier_runs)))
       = [(''a/index/1'', ''1''), (''a/index/1'', ''2''), (''h/index/7'', ''1''),
          (''h/index/7'', ''2'')]"
proof -
  let ?E = "interrupted_env 99"
  let ?cfg = "\<lparr>resume = True, max_urls = None\<rparr>"
  let ?input = "Document (Some [''a/index/1'', ''h/index/7''])"
  let ?s' = "url_loop ?E ?cfg [''a/index/1'', ''h/index/7''] earlier_runs"
  let ?ra = "\<lparr>p_lot_url = ''a/index/1'', p_announce_id = ''1'', status = ''completed'',
               lot_ids_found = 2, lot_ids_processed = 2, started_at = Some 0,
               completed_at = Some 3, error_count = 0, last_error = None\<rparr>"
  let ?rh = "\<lparr>p_lot_url = ''h/index/7'', p_announce_id = ''7'', status = ''failed'',
               lot_ids_found = 2, lot_ids_processed = 1, started_at = Some 5,
               completed_at = Some 5, error_count = 0,
               last_error = Some ''Failed to fetch lot IDs page''\<rparr>"
  have load: "load_urls ?cfg (db earlier_runs) ?input = Inr ([''a/index/1''] @ ''h/index/7'' # [])"
    by (simp add: load_urls_def Let_def)
  then have run: "run ?E ?cfg ?input earlier_runs = Inr ?s'"
    by (simp add: run_def)
  have rows: "find_progress ''a/index/1'' (db earlier_runs) = Some ?ra"
    "find_progress ''h/index/7'' (db earlier_runs) = Some ?rh"
    and keys: "distinct (map lot_key (lot_details (db earlier_runs)))"
    and io: "requests (io earlier_runs) = []"
    by (simp_all add: earlier_runs_value find_progress_def lot_key_def lot_row_def io0_def)
  note a = resume_mode_rerun
             [where cfg = ?cfg and s = earlier_runs and E = ?E and input = ?input and s' = ?s'
                and url = "''a/index/1''" and r = ?ra and ann = "''1''" and pre = "[]"
                and rest = "[''h/index/7'']" and links = None,
              OF _ keys]
  note h = resume_mode_rerun
             [where cfg = ?cfg and s = earlier_runs and E = ?E and input = ?input and s' = ?s'
                and url = "''h/index/7''" and r = ?rh and ann = "''7''"
                and pre = "[''a/index/1'']" and rest = "[]" and links = None,
              OF _ keys]
  from a have "url_records ''a/index/1'' (db ?s') = url_records ''a/index/1'' (db earlier_runs)"
    and "(''a/index/1?tab=lots#'', None) \<notin> set (requests (io ?s'))"
    by (auto simp: run rows io)
  moreover from h have "(''h/index/7?tab=lots#'', None) \<in> set (requests (io ?s'))"
    using load earlier_runs_first_url
    by (auto simp: run rows io example_announce_id)
  ultimately show ?thesis
    using run earlier_runs_resumed by simp
qed

subsection \<open>The loop over the listing pages\<close>

lemma extract_loop_grows:
  "extract_loop join limit es links new = (r, links') \<Longrightarrow> links \<subseteq> links'"
  by (induction join limit es links new rule: extract_loop.induct)
     (auto split: if_splits element.splits option.splits simp: Let_def)

lemma extract_loop_unchanged:
  "extract_loop join limit es links new = (Some new', links) \<Longrightarrow> new' = new"
proof (induction join limit es links new rule: extract_loop.induct)
  case (1 join limit links new_links)
  then show ?case by simp
next
  case (2 join limit e es links new_links)
  show ?case
  proof (cases "reached_max_links limit links")
    case True
    with "2.prems" show ?thesis by simp
  next
    case False
    show ?thesis
    proof (cases e)
      case Detached
      with False "2.prems" show ?thesis by simp
    next
      case (Href h)
      show ?thesis
      proof (cases h)
        case None
        with False Href "2.prems" "2.IH"(1) show ?thesis by simp
      next
        case (Some href)
        show ?thesis
        proof (cases "href = []")
          case True
          with False Href Some "2.prems" "2.IH"(2) show ?thesis by simp
        next
          case nonempty: False
          show ?thesis
          proof (cases "join href \<in> links")
            case True
            with False Href Some nonempty "2.prems" "2.IH"(4) show ?thesis
              by (simp add: Let_def)
          next
            case new: False
            have "False"
            proof (cases "reached_max_links limit (insert (join href) links)")
              case True
              with False Href Some nonempty new "2.prems" show False
                by (auto simp: Let_def)
            next
              case nr: False
              with False Href Some nonempty new "2.prems"
              have "extract_loop join limit es (insert (join href) links) (new_links @ [join href])
                    = (Some new', links)"
                by (simp add: Let_def)
              from extract_loop_grows [OF this] new show False by auto
            qed
            then show ?thesis ..
          qed
        qed
      qed
    qed
  qed
qed

lemma page_outcome_unchanged:
  assumes "snd (snd (page_outcome B cfg page_num first links)) = links"
  shows "fst (snd (page_outcome B cfg page_num first links)) = 0"
proof -
  have "new = []" if "extract_links B limit elements links = (new, links)" for limit elements new
    using that extract_loop_unchanged [of "urljoin B" limit _ links "[]"]
    by (auto simp: extract_links_def split: option.splits prod.splits)
  then show ?thesis
    using assms
    by (auto simp: page_outcome_def split: page_view.splits if_splits prod.splits)
qed

lemma scrape_page_links:
  "all_links (snd (scrape_page B cfg page_num first s))
     = snd (snd (page_outcome B cfg page_num first (all_links s)))"
  "fst (scrape_page B cfg page_num first s)
     = fst (snd (page_outcome B cfg page_num first (all_links s)))"
  "visited (snd (scrape_page B cfg page_num first s)) = visited s @ [page_num]"
  by (simp_all add: scrape_page_def split: prod.splits)

lemma scrape_page_adds_nothing:
  assumes "page_adds_nothing B cfg page_num (all_links s)"
  shows "fst (scrape_page B cfg page_num (page_num = start_page cfg) s) = 0"
    and "all_links (snd (scrape_page B cfg page_num (page_num = start_page cfg) s)) = all_links s"
  using assms page_outcome_unchanged [of B cfg page_num "page_num = start_page cfg" "all_links s"]
  by (simp_all add: scrape_page_links page_adds_nothing_def)

lemma save_checkpoint_fields [simp]:
  "all_links (save_checkpoint s) = all_links s" "visited (save_checkpoint s) = visited s"
  "pages_scraped (save_checkpoint s) = pages_scraped s"
  by (simp_all add: save_checkpoint_def)

lemma scrape_loop_at_cap:
  "reached_max_links (max_links cfg) (all_links s) \<Longrightarrow>
     scrape_loop B cfg page_num c s = Some (Finished, s)"
  by (simp add: scrape_loop.simps [of B cfg page_num c s])

text \<open>One pass through the loop that neither breaks nor raises.\<close>

lemma scrape_loop_next:
  assumes "CHECKPOINT_INTERVAL cfg \<noteq> 0"
    and "\<not> reached_max_links (max_links cfg) (all_links s)"
    and "\<not> reached_max_links (max_links cfg)
            (all_links (snd (scrape_page B cfg page_num (page_num = start_page cfg) s)))"
    and "fst (scrape_page B cfg page_num (page_num = start_page cfg) s) = 0 \<longrightarrow> Suc c < 3"
  shows "\<exists>s'. scrape_loop B cfg page_num c s
               = scrape_loop B cfg (page_num + 1)
                   (if fst (scrape_page B cfg page_num (page_num = start_page cfg) s) = 0
                    then Suc c else 0) s'
             \<and> all_links s'
                 = all_links (snd (scrape_page B cfg page_num (page_num = start_page cfg) s))
             \<and> visited s' = visited s @ [page_num]"
proof -
  obtain n s1 where sp: "scrape_page B cfg page_num (page_num = start_page cfg) s = (n, s1)"
    by (cases "scrape_page B cfg page_num (page_num = start_page cfg) s")
  have v: "visited s1 = visited s @ [page_num]"
    using scrape_page_links(3) [of B cfg page_num "page_num = start_page cfg" s] sp by simp
  define s2 where "s2 = (if int (pages_scraped s1) mod CHECKPOINT_INTERVAL cfg = 0
                          then save_checkpoint s1 else s1)"
  define s3 where "s3 = (if PAGE_DELAY cfg > 0
                          then s2\<lparr>page_sleeps := page_sleeps s2 @ [PAGE_DELAY cfg]\<rparr> else s2)"
  have l: "all_links s3 = all_links s1" and v3: "visited s3 = visited s1"
    by (simp_all add: s3_def s2_def)
  have "scrape_loop B cfg page_num c s
          = scrape_loop B cfg (page_num + 1) (if n = 0 then Suc c else 0) s3"
    using assms sp
    by (subst scrape_loop.simps) (auto simp: Let_def s3_def s2_def)
  with l v v3 sp show ?thesis
    by auto
qed

text \<open>The pass through the loop that ends the run of empty pages.\<close>

lemma scrape_loop_third_empty:
  assumes "\<not> reached_max_links (max_links cfg) (all_links s)"
    and "page_adds_nothing B cfg page_num (all_links s)"
  shows "\<exists>s'. scrape_loop B cfg page_num (Suc (Suc 0)) s = Some (Finished, s')
             \<and> all_links s' = all_links s \<and> visited s' = visited s @ [page_num]"
proof -
  obtain n s1 where sp: "scrape_page B cfg page_num (page_num = start_page cfg) s = (n, s1)"
    by (cases "scrape_page B cfg page_num (page_num = start_page cfg) s")
  from scrape_page_adds_nothing [OF assms(2)] sp have n: "n = 0" and l: "all_links s1 = all_links s"
    by simp_all
  have v: "visited s1 = visited s @ [page_num]"
    using scrape_page_links(3) [of B cfg page_num "page_num = start_page cfg" s] sp by simp
  have "scrape_loop B cfg page_num (Suc (Suc 0)) s = Some (Finished, s1)"
    using assms(1) sp n by (subst scrape_loop.simps) (simp add: Let_def)
  with l v show ?thesis by simp
qed

lemma scrape_loop_empty_pass:
  assumes "CHECKPOINT_INTERVAL cfg \<noteq> 0"
    and "\<not> reached_max_links (max_links cfg) (all_links s)"
    and "page_adds_nothing B cfg page_num (all_links s)"
    and "c < 2"
  shows "\<exists>s'. scrape_loop B cfg page_num c s = scrape_loop B cfg (page_num + 1) (Suc c) s'
             \<and> all_links s' = all_links s \<and> visited s' = visited s @ [page_num]"
  using scrape_loop_next [of cfg s B page_num c] scrape_page_adds_nothing [OF assms(3)] assms
  by auto

lemma scrape_loop_three_empty:
  assumes "CHECKPOINT_INTERVAL cfg \<noteq> 0"
    and "\<not> reached_max_links (max_links cfg) (all_links s)"
    and "page_adds_nothing B cfg p (all_links s)"
    and "page_adds_nothing B cfg (p + 1) (all_links s)"
    and "page_adds_nothing B cfg (p + 2) (all_links s)"
  shows "\<exists>s'. scrape_loop B cfg p 0 s = Some (Finished, s')
             \<and> all_links s' = all_links s \<and> visited s' = visited s @ [p, p + 1, p + 2]"
proof -
  from scrape_loop_empty_pass [OF assms(1,2,3), of 0] obtain s1 where
    1: "scrape_loop B cfg p 0 s = scrape_loop B cfg (p + 1) (Suc 0) s1"
      "all_links s1 = all_links s" "visited s1 = visited s @ [p]"
    by auto
  from scrape_loop_empty_pass [OF assms(1), of s1 B "p + 1" "Suc 0"] assms(2,4) 1 obtain s2 where
    2: "scrape_loop B cfg (p + 1) (Suc 0) s1 = scrape_loop B cfg (p + 2) (Suc (Suc 0)) s2"
      "all_links s2 = all_links s" "visited s2 = visited s @ [p, p + 1]"
    by (auto simp: add.assoc)
  from scrape_loop_third_empty [of cfg s2 B "p + 2"] assms(2,5) 2 obtain s3 where
    "scrape_loop B cfg (p + 2) (Suc (Suc 0)) s2 = Some (Finished, s3)"
      "all_links s3 = all_links s" "visited s3 = visited s @ [p, p + 1, p + 2]"
    by auto
  with 1 2 show ?thesis by simp
qed

lemma scrape_loop_cap_after_page:
  assumes "CHECKPOINT_INTERVAL cfg \<noteq> 0"
    and "\<not> reached_max_links (max_links cfg) (all_links s)"
    and "reached_max_links (max_links cfg)
           (snd (snd (page_outcome B cfg p (p = start_page cfg) (all_links s))))"
  shows "\<exists>s'. scrape_loop B cfg p c s = Some (Finished, s')
             \<and> all_links s' = snd (snd (page_outcome B cfg p (p = start_page cfg) (all_links s)))
             \<and> visited s' = visited s @ [p]"
proof -
  obtain n s1 where sp: "scrape_page B cfg p (p = start_page cfg) s = (n, s1)"
    by (cases "scrape_page B cfg p (p = start_page cfg) s")
  have l: "all_links s1 = snd (snd (page_outcome B cfg p (p = start_page cfg) (all_links s)))"
    and v: "visited s1 = visited s @ [p]"
    using scrape_page_links(1,3) [of B cfg p "p = start_page cfg" s] sp by simp_all
  show ?thesis
    using assms sp l v
    by (subst scrape_loop.simps) (auto simp: Let_def)
qed

text \<open>
  Claim C9, as stated, fails. Page 2 of the listing below contributes a link to the set,
  but its extraction raises afterwards and \<open>scrape_page\<close> returns 0, so the page counts
  as empty. Pages 3, 4 and 5 contribute nothing; the loop returns at page 4, the second of
  them, and page 5 is never loaded.
\<close>

theorem scrape_loop_streak_counterexample:
  "page_outcome raising_listing unlimited 2 False {''g/a'', ''g/b''}
     = (True, 0, {''g/a'', ''g/b'', ''g/c''})
   \<and> page_adds_nothing raising_listing unlimited 3 {''g/a'', ''g/b'', ''g/c''}
   \<and> page_adds_nothing raising_listing unlimited 4 {''g/a'', ''g/b'', ''g/c''}
   \<and> page_adds_nothing raising_listing unlimited 5 {''g/a'', ''g/b'', ''g/c''}
   \<and> map_option (visited \<circ> snd) (scrape_loop raising_listing unlimited 1 0 scraper0)
       = Some [1, 2, 3, 4]"
  by code_simp

text \<open>
  Claim C9, amended. With a checkpoint interval other than 0 and the cap not reached: when
  three pages in a row contribute no new link to the set, from the start of the loop or
  behind a page for which \<open>scrape_page\<close> returns a positive number of new links (whatever
  the count of empty pages before it), the loop returns at the third of them, no further
  page being loaded. The loop also returns as soon as the set reaches \<open>max_links\<close>: behind
  the page that fills it, and at once when it is full at the head of the loop.
\<close>

theorem scrape_loop_stops:
  assumes "CHECKPOINT_INTERVAL cfg \<noteq> 0"
    and "\<not> reached_max_links (max_links cfg) (all_links s)"
  shows "(page_adds_nothing B cfg p (all_links s) \<and> page_adds_nothing B cfg (p + 1) (all_links s)
           \<and> page_adds_nothing B cfg (p + 2) (all_links s)
          \<longrightarrow> (\<exists>s'. scrape_loop B cfg p 0 s = Some (Finished, s')
                    \<and> all_links s' = all_links s \<and> visited s' = visited s @ [p, p + 1, p + 2]))
    \<and> (0 < fst (snd (page_outcome B cfg p (p = start_page cfg) (all_links s)))
         \<and> \<not> reached_max_links (max_links cfg)
                (snd (snd (page_outcome B cfg p (p = start_page cfg) (all_links s))))
         \<and> (\<forall>q \<in> {p + 1, p + 2, p + 3}.
               page_adds_nothing B cfg q
                 (snd (snd (page_outcome B cfg p (p = start_page cfg) (all_links s)))))
          \<longrightarrow> (\<exists>s'. scrape_loop B cfg p c s = Some (Finished, s')
                    \<and> all_links s'
                        = snd (snd (page_outcome B cfg p (p = start_page cfg) (all_links s)))
                    \<and> visited s' = visited s @ [p, p + 1, p + 2, p + 3]))
    \<and> (reached_max_links (max_links cfg)
           (snd (snd (page_outcome B cfg p (p = start_page cfg) (all_links s))))
          \<longrightarrow> (\<exists>s'. scrape_loop B cfg p c s = Some (Finished, s')
                    \<and> all_links s'
                        = snd (snd (page_outcome B cfg p (p = start_page cfg) (all_links s)))
                    \<and> visited s' = visited s @ [p]))
    \<and> (reached_max_links (max_links cfg) (all_links (s0 :: scraper_state))
          \<longrightarrow> scrape_loop B cfg p c s0 = Some (Finished, s0))"
proof (intro conjI impI)
  assume "page_adds_nothing B cfg p (all_links s) \<and> page_adds_nothing B cfg (p + 1) (all_links s)
           \<and> page_adds_nothing B cfg (p + 2) (all_links s)"
  with scrape_loop_three_empty [OF assms, of B p]
  show "\<exists>s'. scrape_loop B cfg p 0 s = Some (Finished, s')
             \<and> all_links s' = all_links s \<and> visited s' = visited s @ [p, p + 1, p + 2]"
    by simp
next
  let ?L = "snd (snd (page_outcome B cfg p (p = start_page cfg) (all_links s)))"
  assume a: "0 < fst (snd (page_outcome B cfg p (p = start_page cfg) (all_links s)))
         \<and> \<not> reached_max_links (max_links cfg) ?L
         \<and> (\<forall>q \<in> {p + 1, p + 2, p + 3}. page_adds_nothing B cfg q ?L)"
  from scrape_loop_next [OF assms, of B p c] a obtain s1 where
    1: "scrape_loop B cfg p c s = scrape_loop B cfg (p + 1) 0 s1"
      "all_links s1 = ?L" "visited s1 = visited s @ [p]"
    by (auto simp: scrape_page_links)
  from scrape_loop_three_empty [OF assms(1), of s1 B "p + 1"] a 1 obtain s' where
    "scrape_loop B cfg (p + 1) 0 s1 = Some (Finished, s')" "all_links s' = ?L"
    "visited s' = visited s @ [p, p + 1, p + 2, p + 3]"
    by (auto simp: add.assoc)
  with 1 show "\<exists>s'. scrape_loop B cfg p c s = Some (Finished, s') \<and> all_links s' = ?L
                  \<and> visited s' = visited s @ [p, p + 1, p + 2, p + 3]"
    by simp
next
  assume "reached_max_links (max_links cfg)
           (snd (snd (page_outcome B cfg p (p = start_page cfg) (all_links s))))"
  from scrape_loop_cap_after_page [OF assms this]
  show "\<exists>s'. scrape_loop B cfg p c s = Some (Finished, s')
             \<and> all_links s' = snd (snd (page_outcome B cfg p (p = start_page cfg) (all_links s)))
             \<and> visited s' = visited s @ [p]" .
next
  assume "reached_max_links (max_links cfg) (all_links s0)"
  then show "scrape_loop B cfg p c s0 = Some (Finished, s0)"
    by (rule scrape_loop_at_cap)
qed

lemma listing_first_page:
  "page_outcome listing cfg 1 True {} = (True, 2, {''g/a'', ''g/b''})" if "max_links cfg = None" for cfg
  using that by (simp add: page_outcome_def listing_def extract_links_def reached_max_links_def Let_def insert_commute)

lemma listing_first_page_cap:
  "page_outcome listing two_links 1 True {} = (True, 2, {''g/a'', ''g/b''})"
  by (simp add: page_outcome_def listing_def extract_links_def reached_max_links_def Let_def two_links_def insert_commute)

lemma listing_empty_pages:
  "page_adds_nothing listing unlimited 2 {''g/a'', ''g/b''}"
  "page_adds_nothing listing unlimited 3 {''g/a'', ''g/b''}"
  "page_adds_nothing listing unlimited 4 {''g/a'', ''g/b''}"
  by (simp_all add: page_adds_nothing_def page_outcome_def listing_def extract_links_def
        reached_max_links_def unlimited_def Let_def)

theorem scrape_loop_stops_witness:
  "map_option (\<lambda>(ex, s'). (ex, visited s', all_links s')) (scrape_loop listing unlimited 1 0 scraper0)
     = Some (Finished, [1, 2, 3, 4], {''g/a'', ''g/b''})
   \<and> map_option (\<lambda>(ex, s'). (ex, visited s', all_links s')) (scrape_loop listing two_links 1 0 scraper0)
     = Some (Finished, [1], {''g/a'', ''g/b''})"
proof -
  have u: "CHECKPOINT_INTERVAL unlimited \<noteq> 0" "max_links unlimited = None" "start_page unlimited = 1"
    and t: "CHECKPOINT_INTERVAL two_links \<noteq> 0" "max_links two_links = Some 2" "start_page two_links = 1"
    by (simp_all add: unlimited_def two_links_def)
  have s: "all_links scraper0 = {}" "visited scraper0 = []"
    by (simp_all add: scraper0_def)
  have card2: "card {''g/a'', ''g/b''} = 2"
    by simp
  from scrape_loop_stops [of unlimited scraper0 listing 1 0 scraper0]
  have "\<exists>s'. scrape_loop listing unlimited 1 0 scraper0 = Some (Finished, s')
          \<and> all_links s' = {''g/a'', ''g/b''} \<and> visited s' = [1, 2, 3, 4]"
    by (simp add: u s listing_first_page listing_empty_pages reached_max_links_def)
  moreover from scrape_loop_stops [of two_links scraper0 listing 1 0 scraper0]
  have "\<exists>s'. scrape_loop listing two_links 1 0 scraper0 = Some (Finished, s')
          \<and> all_links s' = {''g/a'', ''g/b''} \<and> visited s' = [1]"
    by (simp add: t s listing_first_page_cap reached_max_links_def card2)
  ultimately show ?thesis
    by auto
qed

end
